theory Spec2Isabelle
  imports Main "HOL-Library.Word" "HOL-Library.Multiset"
begin

unbundle bit_operations_syntax

section \<open>Exceptions and bytes\<close>

text \<open>
  The C++ exceptions the library throws, each carrying its \<open>what()\<close> message.
  \<open>FilesystemError\<close> stands for \<open>std::filesystem::filesystem_error\<close>. Memory
  exhaustion (\<open>std::bad_alloc\<close>) is not modelled.
\<close>

datatype exn =
    RuntimeError string
  | InvalidArgument string
  | OutOfRange string
  | FilesystemError

type_synonym byte = "8 word"

text \<open>A file system maps the path of a regular file to its bytes.\<close>

type_synonym filesystem = "string \<rightharpoonup> byte list"

section \<open>\<open>std::ifstream\<close>\<close>

text \<open>
  The part of \<open>std::ifstream\<close> the transports use: whether a file is attached, the bytes
  of that file from the get position to its end, and the three state bits. The storage
  medium is taken to be reliable: a read either delivers the bytes or meets the end of the
  file.
\<close>

record ifstream =
  in_is_open :: bool
  rest :: "byte list"
  eofbit :: bool
  failbit :: bool
  badbit :: bool

definition ifstream_init :: ifstream where
  "ifstream_init =
     \<lparr>in_is_open = False, rest = [], eofbit = False, failbit = False, badbit = False\<rparr>"

text \<open>\<open>fail()\<close> and \<open>operator!\<close>.\<close>

definition in_fail :: "ifstream \<Rightarrow> bool" where
  "in_fail s = (failbit s \<or> badbit s)"

definition in_good :: "ifstream \<Rightarrow> bool" where
  "in_good s = (\<not> eofbit s \<and> \<not> failbit s \<and> \<not> badbit s)"

text \<open>
  \<open>open(path, binary | in)\<close>: fails (failbit) when a file is already attached or the
  file does not exist; on success the state bits are cleared.
\<close>

definition ifstream_open :: "filesystem \<Rightarrow> string \<Rightarrow> ifstream \<Rightarrow> ifstream" where
  "ifstream_open fs p s =
     (if in_is_open s then s\<lparr>failbit := True\<rparr>
      else case fs p of
             None \<Rightarrow> s\<lparr>failbit := True\<rparr>
           | Some bs \<Rightarrow>
               \<lparr>in_is_open = True, rest = bs, eofbit = False, failbit = False, badbit = False\<rparr>)"

definition ifstream_close :: "ifstream \<Rightarrow> ifstream" where
  "ifstream_close s =
     (if in_is_open s then s\<lparr>in_is_open := False, rest := []\<rparr> else s\<lparr>failbit := True\<rparr>)"

text \<open>
  \<open>read(buf, n)\<close>: returns the bytes stored into the buffer. A stream that is not good
  extracts nothing and gets failbit; a stream without a file, or with fewer than \<open>n\<close>
  bytes left, delivers what there is and gets eofbit and failbit.
\<close>

definition ifstream_read :: "nat \<Rightarrow> ifstream \<Rightarrow> byte list \<times> ifstream" where
  "ifstream_read n s =
     (if \<not> in_good s then ([], s\<lparr>failbit := True\<rparr>)
      else if \<not> in_is_open s then ([], s\<lparr>eofbit := True, failbit := True\<rparr>)
      else if n \<le> length (rest s) then (take n (rest s), s\<lparr>rest := drop n (rest s)\<rparr>)
      else (rest s, s\<lparr>rest := [], eofbit := True, failbit := True\<rparr>))"

section \<open>\<open>BinFileIn\<close>\<close>

definition BinFileIn_close :: "ifstream \<Rightarrow> ifstream" where
  "BinFileIn_close s = (if in_is_open s then ifstream_close s else s)"

definition BinFileIn_open :: "filesystem \<Rightarrow> string \<Rightarrow> ifstream \<Rightarrow> (exn + unit) \<times> ifstream" where
  "BinFileIn_open fs file s =
     (let s1 = BinFileIn_close s;
          s2 = ifstream_open fs file s1
      in if in_fail s2 then (Inl (RuntimeError (''Failed to open file: '' @ file)), s2)
         else (Inr (), s2))"

text \<open>
  The loop over the four bytes of the length field either leaves \<open>read()\<close> early
  (returning a block, or throwing) or delivers the assembled \<open>dataSize\<close>.
\<close>

datatype size_result = EarlyReturn "byte list" | Thrown exn | Size "32 word"

function read_size :: "nat \<Rightarrow> 32 word \<Rightarrow> ifstream \<Rightarrow> size_result \<times> ifstream" where
  "read_size i dataSize s =
     (if i < 4 then
        (let (bs, s') = ifstream_read 1 s in
         if eofbit s' then (EarlyReturn [], s')
         else if in_fail s' then (Thrown (RuntimeError ''Failed to read data size''), s')
         else read_size (i + 1)
                (dataSize OR push_bit (i * 8) (ucast (case bs of [] \<Rightarrow> 0 | b # _ \<Rightarrow> b))) s')
      else (Size dataSize, s))"
  by pat_completeness auto
termination
  by (relation "measure (\<lambda>(i, dataSize, s). 4 - i)") auto

declare read_size.simps [simp del]

text \<open>
  \<open>buffer.resize(dataSize)\<close> fills the block with zeros; the read overwrites as many of
  them as the file delivers.
\<close>

definition BinFileIn_read :: "ifstream \<Rightarrow> (exn + byte list) \<times> ifstream" where
  "BinFileIn_read s =
     (if in_fail s then (Inl (RuntimeError ''No file opened for reading''), s)
      else case read_size 0 0 s of
             (EarlyReturn b, s1) \<Rightarrow> (Inr b, s1)
           | (Thrown e, s1) \<Rightarrow> (Inl e, s1)
           | (Size dataSize, s1) \<Rightarrow>
               (let n = unat dataSize;
                    (bs, s2) = ifstream_read n s1;
                    buffer = bs @ replicate (n - length bs) 0
                in if in_fail s2 \<and> \<not> eofbit s2
                   then (Inl (RuntimeError ''Failed to read data content''), s2)
                   else (Inr buffer, s2)))"

text \<open>A transport just opened on a file holding \<open>bs\<close>.\<close>

definition opened :: "byte list \<Rightarrow> ifstream" where
  "opened bs = \<lparr>in_is_open = True, rest = bs, eofbit = False, failbit = False, badbit = False\<rparr>"

text \<open>The value of a four-byte little-endian length field.\<close>

definition length_field :: "byte \<Rightarrow> byte \<Rightarrow> byte \<Rightarrow> byte \<Rightarrow> 32 word" where
  "length_field b0 b1 b2 b3 =
     ucast b0 OR push_bit 8 (ucast b1) OR push_bit 16 (ucast b2) OR push_bit 24 (ucast b3)"

section \<open>Properties of \<open>BinFileIn::read\<close>\<close>

lemma open_good_is_opened: "in_is_open s \<Longrightarrow> in_good s \<Longrightarrow> s = opened (rest s)"
  by (cases s) (simp add: opened_def in_good_def)

lemma read_size_step:
  "i < 4 \<Longrightarrow> read_size i d (opened (b # bs)) =
     read_size (Suc i) (d OR push_bit (i * 8) (ucast b)) (opened bs)"
  by (subst read_size.simps) (simp add: ifstream_read_def opened_def in_good_def in_fail_def)

lemma read_size_eof:
  "i < 4 \<Longrightarrow> read_size i d (opened []) =
     (EarlyReturn [], (opened [])\<lparr>eofbit := True, failbit := True\<rparr>)"
  by (subst read_size.simps) (simp add: ifstream_read_def opened_def in_good_def in_fail_def)

lemma read_size_done: "\<not> i < 4 \<Longrightarrow> read_size i d s = (Size d, s)"
  by (subst read_size.simps) simp

lemma read_size_full:
  "read_size 0 0 (opened (b0 # b1 # b2 # b3 # bs)) =
     (Size (length_field b0 b1 b2 b3), opened bs)"
  by (simp add: read_size_step read_size_done length_field_def ac_simps)

lemma read_size_short:
  "length bs < 4 \<Longrightarrow> read_size 0 0 (opened bs) =
     (EarlyReturn [], (opened [])\<lparr>eofbit := True, failbit := True\<rparr>)"
proof -
  assume "length bs < 4"
  then consider "bs = []" | a where "bs = [a]" | a b where "bs = [a, b]"
    | a b c where "bs = [a, b, c]"
    by (cases bs; cases "tl bs"; cases "tl (tl bs)"; cases "tl (tl (tl bs))") auto
  then show ?thesis
    by cases (simp_all add: read_size_step read_size_eof)
qed

lemma push_bit_ucast_byte_eq_0:
  "n \<le> 24 \<Longrightarrow> push_bit n (ucast (b::byte) :: 32 word) = 0 \<longleftrightarrow> b = 0"
proof
  assume n: "n \<le> 24" and z: "push_bit n (ucast b :: 32 word) = 0"
  have "\<not> bit b k" for k
  proof
    assume bk: "bit b k"
    then have "k < 8" by (auto dest: bit_imp_le_length)
    with n bk have "bit (push_bit n (ucast b :: 32 word)) (n + k)"
      by (simp add: bit_simps)
    with z show False by simp
  qed
  then show "b = 0" by (simp add: bit_eq_iff)
qed simp

lemma length_field_eq_0:
  "length_field b0 b1 b2 b3 = 0 \<longleftrightarrow> b0 = 0 \<and> b1 = 0 \<and> b2 = 0 \<and> b3 = 0"
  using push_bit_ucast_byte_eq_0[of 0 b0] push_bit_ucast_byte_eq_0[of 8 b1]
    push_bit_ucast_byte_eq_0[of 16 b2] push_bit_ucast_byte_eq_0[of 24 b3]
  by (simp add: length_field_def or_eq_0_iff)

lemma BinFileIn_read_short:
  "length bs < 4 \<Longrightarrow> BinFileIn_read (opened bs) =
     (Inr [], (opened [])\<lparr>eofbit := True, failbit := True\<rparr>)"
  by (simp add: BinFileIn_read_def read_size_short) (simp add: opened_def in_fail_def)

text \<open>
  With a complete length field, \<open>read()\<close> returns a block of exactly \<open>dataSize\<close> bytes:
  the payload bytes the file still holds, followed by zeros where it ends early.
\<close>

lemma BinFileIn_read_frame:
  "BinFileIn_read (opened (b0 # b1 # b2 # b3 # bs)) =
     (let n = unat (length_field b0 b1 b2 b3) in
      if n \<le> length bs then (Inr (take n bs), opened (drop n bs))
      else (Inr (bs @ replicate (n - length bs) 0),
            (opened [])\<lparr>eofbit := True, failbit := True\<rparr>))"
  by (simp add: BinFileIn_read_def read_size_full Let_def)
     (simp add: opened_def in_fail_def in_good_def ifstream_read_def)

section \<open>Object representations\<close>

text \<open>
  \<open>std::memcpy\<close> between a scalar and a byte buffer copies the scalar's object
  representation, whose byte order is the platform's. A \<open>double\<close> is modelled by its 64
  bits: the library only ever copies it, so bit-exactness is equality of these words.
\<close>

datatype endianness = LittleEndian | BigEndian

type_synonym double = "64 word"

fun le_bytes :: "nat \<Rightarrow> nat \<Rightarrow> byte list" where
  "le_bytes 0 v = []"
| "le_bytes (Suc n) v = word_of_nat (v mod 256) # le_bytes n (v div 256)"

fun le_value :: "byte list \<Rightarrow> nat" where
  "le_value [] = 0"
| "le_value (b # bs) = unat b + 256 * le_value bs"

definition object_bytes :: "endianness \<Rightarrow> nat \<Rightarrow> 'a::len word \<Rightarrow> byte list" where
  "object_bytes e n w =
     (case e of LittleEndian \<Rightarrow> le_bytes n (unat w) | BigEndian \<Rightarrow> rev (le_bytes n (unat w)))"

definition object_value :: "endianness \<Rightarrow> byte list \<Rightarrow> 'a::len word" where
  "object_value e bs =
     word_of_nat (le_value (case e of LittleEndian \<Rightarrow> bs | BigEndian \<Rightarrow> rev bs))"

section \<open>\<open>CasinoBinConverter\<close>\<close>

definition CasinoBinConverter_convert_double :: "endianness \<Rightarrow> double \<Rightarrow> byte list" where
  "CasinoBinConverter_convert_double e d =
     (let count = (1 :: 32 word)
      in object_bytes e 4 count @ object_bytes e 8 d)"

definition CasinoBinConverter_convert_bytes :: "endianness \<Rightarrow> byte list \<Rightarrow> exn + double" where
  "CasinoBinConverter_convert_bytes e d =
     (if length d < 4 + 8 then Inl (RuntimeError ''Invalid data size for double conversion'')
      else let count = (object_value e (take 4 d) :: 32 word)
           in if count \<noteq> 1
              then Inl (RuntimeError ''Expected count of 1 for single double conversion'')
              else Inr (object_value e (take 8 (drop 4 d))))"

section \<open>\<open>Reader\<close>\<close>

text \<open>
  \<open>Reader<double, CasinoBinConverter, BinFileIn>\<close>. The buffer holds
  \<open>std::unique_ptr<double>\<close> made by \<open>std::make_unique\<close>, which are never null, so it
  is a list of doubles.
\<close>

record Reader =
  r_file :: ifstream
  r_data :: "double list"
  r_path :: string
  r_isOpen :: bool

definition Reader_init :: "string \<Rightarrow> Reader" where
  "Reader_init pFile = \<lparr>r_file = ifstream_init, r_data = [], r_path = pFile, r_isOpen = False\<rparr>"

fun what :: "exn \<Rightarrow> string" where
  "what (RuntimeError m) = m"
| "what (InvalidArgument m) = m"
| "what (OutOfRange m) = m"
| "what FilesystemError = ''filesystem error''"

definition Reader_open :: "filesystem \<Rightarrow> string \<Rightarrow> Reader \<Rightarrow> (exn + unit) \<times> Reader" where
  "Reader_open fs pFile r =
     (case BinFileIn_open fs pFile (r_file r) of
        (Inr u, f) \<Rightarrow> (Inr (), r\<lparr>r_file := f, r_isOpen := True\<rparr>)
      | (Inl ex, f) \<Rightarrow>
          (Inl (RuntimeError (''Failed to open file: '' @ pFile @ '' ('' @ what ex @ '')'')),
           r\<lparr>r_file := f\<rparr>))"

definition Reader_close :: "Reader \<Rightarrow> Reader" where
  "Reader_close r = r\<lparr>r_file := BinFileIn_close (r_file r), r_isOpen := False\<rparr>"

definition Reader_flush :: "Reader \<Rightarrow> Reader" where
  "Reader_flush r = r\<lparr>r_data := []\<rparr>"

text \<open>The body of the \<open>try\<close> block of \<open>read()\<close>, on the transport.\<close>

definition read_unit :: "endianness \<Rightarrow> ifstream \<Rightarrow> (exn + double) \<times> ifstream" where
  "read_unit e s =
     (case BinFileIn_read s of
        (Inl ex, s') \<Rightarrow> (Inl ex, s')
      | (Inr fileData, s') \<Rightarrow>
          if fileData = [] then (Inl (RuntimeError ''End of file reached''), s')
          else (case CasinoBinConverter_convert_bytes e fileData of
                  Inl ex \<Rightarrow> (Inl ex, s')
                | Inr v \<Rightarrow> (Inr v, s')))"

text \<open>\<open>read()\<close>: the lazy open, then the \<open>try\<close> block, whose handler wraps every exception.\<close>

definition Reader_read :: "endianness \<Rightarrow> filesystem \<Rightarrow> Reader \<Rightarrow> (exn + double) \<times> Reader" where
  "Reader_read e fs r =
     (case (if \<not> r_isOpen r then Reader_open fs (r_path r) r else (Inr (), r)) of
        (Inl ex, r1) \<Rightarrow> (Inl ex, r1)
      | (Inr u, r1) \<Rightarrow>
          (case read_unit e (r_file r1) of
             (Inl ex, f) \<Rightarrow>
               (Inl (RuntimeError (''Failed to read/convert data: '' @ what ex)), r1\<lparr>r_file := f\<rparr>)
           | (Inr v, f) \<Rightarrow> (Inr v, r1\<lparr>r_file := f\<rparr>)))"

text \<open>\<open>std::string::find(needle) != npos\<close>.\<close>

fun find_str :: "string \<Rightarrow> string \<Rightarrow> bool" where
  "find_str needle [] = (needle = [])"
| "find_str needle (c # cs) = (take (length needle) (c # cs) = needle \<or> find_str needle cs)"

text \<open>What a load still has to read: the bytes a \<open>read()\<close> would start from.\<close>

definition unread :: "filesystem \<Rightarrow> Reader \<Rightarrow> nat" where
  "unread fs r =
     (if r_isOpen r then length (rest (r_file r))
      else case fs (r_path r) of None \<Rightarrow> 0 | Some bs \<Rightarrow> length bs)"

lemma read_size_not_ready:
  assumes "\<not> in_fail s" and "\<not> (in_is_open s \<and> in_good s)"
  shows "fst (read_size 0 0 s) = EarlyReturn []"
  using assms
  by (subst read_size.simps)
     (auto simp add: ifstream_read_def in_good_def in_fail_def)

lemma BinFileIn_read_consumes:
  assumes "BinFileIn_read s = (Inr buf, s')" and "buf \<noteq> []"
  shows "length (rest s') < length (rest s) \<and> in_is_open s \<and> in_good s"
proof (cases "in_is_open s \<and> in_good s")
  case True
  then have s: "s = opened (rest s)" by (simp add: open_good_is_opened)
  show ?thesis
  proof (cases "length (rest s) < 4")
    case True
    with assms s show ?thesis
      using BinFileIn_read_short [of "rest s"] by simp
  next
    case False
    then obtain b0 b1 b2 b3 bs where r: "rest s = b0 # b1 # b2 # b3 # bs"
      by (cases "rest s"; cases "tl (rest s)"; cases "tl (tl (rest s))";
          cases "tl (tl (tl (rest s)))") auto
    have "BinFileIn_read (opened (b0 # b1 # b2 # b3 # bs)) = (Inr buf, s')"
      using assms(1) s r by simp
    then have "length (rest s') \<le> length bs"
      unfolding BinFileIn_read_frame Let_def
      by (auto simp add: opened_def split: if_splits)
    with r True show ?thesis by simp
  qed
next
  case False
  show ?thesis
  proof (cases "in_fail s")
    case True
    with assms show ?thesis by (simp add: BinFileIn_read_def)
  next
    case nf: False
    from read_size_not_ready [OF nf False] assms show ?thesis
      by (cases "read_size 0 0 s") (simp add: BinFileIn_read_def nf)
  qed
qed

lemma read_unit_consumes:
  assumes "read_unit e s = (Inr v, s')"
  shows "length (rest s') < length (rest s)"
  using assms BinFileIn_read_consumes [of s _ s']
  by (auto simp add: read_unit_def split: prod.splits sum.splits if_splits)

lemma BinFileIn_close_not_open: "\<not> in_is_open (BinFileIn_close s)"
  by (simp add: BinFileIn_close_def ifstream_close_def)

lemma BinFileIn_open_eq:
  "BinFileIn_open fs p s =
     (case fs p of
        None \<Rightarrow> (Inl (RuntimeError (''Failed to open file: '' @ p)),
                 (BinFileIn_close s)\<lparr>failbit := True\<rparr>)
      | Some bs \<Rightarrow> (Inr (), opened bs))"
  by (simp add: BinFileIn_open_def Let_def ifstream_open_def BinFileIn_close_not_open
      in_fail_def opened_def split: option.splits)

lemma Reader_open_eq:
  "Reader_open fs p r =
     (case fs p of
        None \<Rightarrow>
          (Inl (RuntimeError (''Failed to open file: '' @ p @ '' ('' @
                  (''Failed to open file: '' @ p) @ '')'')),
           r\<lparr>r_file := (BinFileIn_close (r_file r))\<lparr>failbit := True\<rparr>\<rparr>)
      | Some bs \<Rightarrow> (Inr (), r\<lparr>r_file := opened bs, r_isOpen := True\<rparr>))"
  by (simp add: Reader_open_def BinFileIn_open_eq split: option.splits)

lemma unread_data [simp]: "unread fs (r\<lparr>r_data := d\<rparr>) = unread fs r"
  by (simp add: unread_def)

lemma Reader_read_unread:
  assumes "Reader_read e fs r = (Inr v, r1)"
  shows "unread fs r1 < unread fs r \<and> r_isOpen r1 \<and> r_path r1 = r_path r \<and> r_data r1 = r_data r"
proof (cases "r_isOpen r")
  case True
  with assms show ?thesis
    by (auto simp add: Reader_read_def unread_def split: prod.splits sum.splits
        dest: read_unit_consumes)
next
  case False
  with assms obtain bs u where bs: "fs (r_path r) = Some bs"
    and u: "read_unit e (opened bs) = (Inr v, u)"
    and r1: "r1 = r\<lparr>r_file := u, r_isOpen := True\<rparr>"
    by (auto simp add: Reader_read_def Reader_open_eq
        split: prod.splits sum.splits option.splits)
  from read_unit_consumes [OF u] have "length (rest u) < length bs"
    by (simp add: opened_def)
  with bs r1 False show ?thesis by (simp add: unread_def)
qed

text \<open>
  The loop of \<open>load()\<close>, with the lines it writes to \<open>std::cerr\<close>. The inner handler
  catches \<open>std::runtime_error\<close> only; anything else leaves the loop as an exception.
\<close>

function load_loop ::
  "endianness \<Rightarrow> filesystem \<Rightarrow> Reader \<Rightarrow> (exn + unit) \<times> Reader \<times> string list" where
  "load_loop e fs r =
     (case Reader_read e fs r of
        (Inr item, r1) \<Rightarrow> load_loop e fs (r1\<lparr>r_data := r_data r1 @ [item]\<rparr>)
      | (Inl (RuntimeError msg), r1) \<Rightarrow>
          if find_str ''End of file'' msg then (Inr (), r1, [])
          else (Inr (), r1, [''Error reading file: '' @ msg])
      | (Inl ex, r1) \<Rightarrow> (Inl ex, r1, []))"
  by pat_completeness auto
termination
  apply (relation "measure (\<lambda>(e, fs, r). unread fs r)")
   apply simp
  apply (simp add: Reader_read_unread [OF sym])
  done

declare load_loop.simps [simp del]

definition Reader_load ::
  "endianness \<Rightarrow> filesystem \<Rightarrow> Reader \<Rightarrow> (exn + unit) \<times> Reader \<times> string list" where
  "Reader_load e fs r =
     (case (if \<not> r_isOpen r
            then (if r_path r = [] then (Inl (RuntimeError ''File path is not set''), r)
                  else Reader_open fs (r_path r) r)
            else (Inr (), r)) of
        (Inl ex, r1) \<Rightarrow> (Inl ex, r1, [])
      | (Inr u, r1) \<Rightarrow>
          (case load_loop e fs (Reader_flush r1) of
             (Inl ex, r2, cerr) \<Rightarrow> (Inl ex, r2, cerr @ [''Error during load: '' @ what ex])
           | (Inr u, r2, cerr) \<Rightarrow> (Inr (), Reader_close r2, cerr)))"

definition Reader_getData :: "Reader \<Rightarrow> double list" where
  "Reader_getData r = r_data r"

section \<open>\<open>std::ofstream\<close>\<close>

datatype openmode = ios_in | ios_out | ios_binary | ios_trunc | ios_app | ios_ate

text \<open>The C \<open>fopen\<close> modes, without the \<open>b\<close>: \<open>r\<close>, \<open>w\<close>, \<open>a\<close>, \<open>r+\<close>, \<open>w+\<close>, \<open>a+\<close>.\<close>

datatype cmode = Mode_r | Mode_w | Mode_a | Mode_r_plus | Mode_w_plus | Mode_a_plus

text \<open>
  The table of \<open>std::basic_filebuf::open\<close>: which \<open>fopen\<close> mode a combination of flags
  stands for (\<open>binary\<close> and \<open>ate\<close> set aside); a combination outside the table fails.
\<close>

definition fopen_mode :: "openmode list \<Rightarrow> cmode option" where
  "fopen_mode m =
     (let i = (ios_in \<in> set m); out = (ios_out \<in> set m);
          t = (ios_trunc \<in> set m); a = (ios_app \<in> set m)
      in if out \<and> \<not> i \<and> \<not> a then Some Mode_w
         else if \<not> i \<and> a \<and> \<not> t then Some Mode_a
         else if i \<and> \<not> out \<and> \<not> t \<and> \<not> a then Some Mode_r
         else if i \<and> out \<and> \<not> t \<and> \<not> a then Some Mode_r_plus
         else if i \<and> out \<and> t \<and> \<not> a then Some Mode_w_plus
         else if i \<and> a \<and> \<not> t then Some Mode_a_plus
         else None)"

text \<open>
  The output stream: whether a file is attached, its path, the put position, whether every
  write goes to the end of the file (the \<open>a\<close> modes), and the state bits. The stream's
  buffer is not modelled: a write reaches the file at once, so the file system of the
  model is the one the code shows once the stream has been flushed or closed. (While a
  writer is still open, the file of the code may still hold its old bytes.)
\<close>

record ofstream =
  out_is_open :: bool
  out_path :: string
  out_pos :: nat
  out_append :: bool
  out_failbit :: bool
  out_badbit :: bool

definition ofstream_init :: ofstream where
  "ofstream_init =
     \<lparr>out_is_open = False, out_path = [], out_pos = 0, out_append = False,
      out_failbit = False, out_badbit = False\<rparr>"

definition out_fail :: "ofstream \<Rightarrow> bool" where
  "out_fail s = (out_failbit s \<or> out_badbit s)"

text \<open>
  \<open>std::ofstream::open(path, mode)\<close> opens its buffer with \<open>mode | ios_base::out\<close>. The
  modes \<open>r\<close> and \<open>r+\<close> need the file to exist and keep its bytes; \<open>w\<close> and \<open>w+\<close> create
  or empty it; \<open>a\<close> and \<open>a+\<close> create it when absent. A failed open sets failbit, a
  successful one clears the state.
\<close>

definition ofstream_open ::
  "filesystem \<Rightarrow> string \<Rightarrow> openmode list \<Rightarrow> ofstream \<Rightarrow> filesystem \<times> ofstream" where
  "ofstream_open fs p m s =
     (let attached = \<lambda>pos app.
            \<lparr>out_is_open = True, out_path = p, out_pos = pos, out_append = app,
             out_failbit = False, out_badbit = False\<rparr>
      in if out_is_open s then (fs, s\<lparr>out_failbit := True\<rparr>)
         else case fopen_mode (ios_out # m) of
           None \<Rightarrow> (fs, s\<lparr>out_failbit := True\<rparr>)
         | Some cm \<Rightarrow>
             if cm = Mode_r \<or> cm = Mode_r_plus then
               (case fs p of
                  None \<Rightarrow> (fs, s\<lparr>out_failbit := True\<rparr>)
                | Some bs \<Rightarrow> (fs, attached (if ios_ate \<in> set m then length bs else 0) False))
             else if cm = Mode_w \<or> cm = Mode_w_plus then (fs(p \<mapsto> []), attached 0 False)
             else (case fs p of
                     None \<Rightarrow> (fs(p \<mapsto> []), attached 0 True)
                   | Some bs \<Rightarrow> (fs, attached (length bs) True)))"

definition ofstream_close :: "ofstream \<Rightarrow> ofstream" where
  "ofstream_close s =
     (if out_is_open s then s\<lparr>out_is_open := False\<rparr> else s\<lparr>out_failbit := True\<rparr>)"

text \<open>
  \<open>write(buf, n)\<close>: a stream that is not good writes nothing and gets failbit; a stream
  without a file gets badbit when there is a byte to write; otherwise the bytes overwrite the file from the put position
  on and extend it where they pass its end.
\<close>

definition ofstream_write :: "byte list \<Rightarrow> filesystem \<times> ofstream \<Rightarrow> filesystem \<times> ofstream" where
  "ofstream_write bs = (\<lambda>(fs, s).
     if out_fail s then (fs, s\<lparr>out_failbit := True\<rparr>)
     else if \<not> out_is_open s then (fs, if bs = [] then s else s\<lparr>out_badbit := True\<rparr>)
     else let old = (case fs (out_path s) of None \<Rightarrow> [] | Some c \<Rightarrow> c);
              pos = (if out_append s then length old else out_pos s);
              new = take pos old @ bs @ drop (pos + length bs) old
          in (fs(out_path s \<mapsto> new), s\<lparr>out_pos := pos + length bs\<rparr>))"

section \<open>\<open>BinFileOut\<close> and \<open>CSVFileOut\<close>\<close>

definition BinFileOut_close :: "ofstream \<Rightarrow> ofstream" where
  "BinFileOut_close s = (if out_is_open s then ofstream_close s else s)"

definition BinFileOut_open ::
  "filesystem \<Rightarrow> string \<Rightarrow> ofstream \<Rightarrow> (exn + unit) \<times> filesystem \<times> ofstream" where
  "BinFileOut_open fs file s =
     (let s1 = BinFileOut_close s;
          (fs2, s2) = ofstream_open fs file [ios_binary, ios_in] s1
      in if out_fail s2 then (Inl (RuntimeError (''Failed to open file: '' @ file)), fs2, s2)
         else (Inr (), fs2, s2))"

text \<open>The loop writing the four bytes of \<open>dataSize\<close>, lowest first.\<close>

function write_size :: "nat \<Rightarrow> 32 word \<Rightarrow> filesystem \<times> ofstream \<Rightarrow> filesystem \<times> ofstream" where
  "write_size i dataSize st =
     (if i < 4 then
        (let byte = (ucast (drop_bit (i * 8) dataSize) :: byte)
         in write_size (i + 1) dataSize (ofstream_write [byte] st))
      else st)"
  by pat_completeness auto
termination
  by (relation "measure (\<lambda>(i, dataSize, st). 4 - i)") auto

declare write_size.simps [simp del]

definition BinFileOut_write ::
  "filesystem \<Rightarrow> byte list \<Rightarrow> ofstream \<Rightarrow> (exn + unit) \<times> filesystem \<times> ofstream" where
  "BinFileOut_write fs d s =
     (if out_fail s then (Inl (RuntimeError ''Failed to open file for writing''), fs, s)
      else let dataSize = (word_of_nat (length d) :: 32 word);
               (fs2, s2) = ofstream_write d (write_size 0 dataSize (fs, s))
           in (Inr (), fs2, s2))"

definition CSVFileOut_close :: "ofstream \<Rightarrow> ofstream" where
  "CSVFileOut_close s = (if out_is_open s then ofstream_close s else s)"

definition CSVFileOut_open ::
  "filesystem \<Rightarrow> string \<Rightarrow> ofstream \<Rightarrow> (exn + unit) \<times> filesystem \<times> ofstream" where
  "CSVFileOut_open fs file s =
     (let s1 = CSVFileOut_close s;
          (fs2, s2) = ofstream_open fs file [ios_binary, ios_in] s1
      in if out_fail s2 then (Inl (RuntimeError (''Failed to open file: '' @ file)), fs2, s2)
         else (Inr (), fs2, s2))"

definition CSVFileOut_write ::
  "filesystem \<Rightarrow> string \<Rightarrow> ofstream \<Rightarrow> (exn + unit) \<times> filesystem \<times> ofstream" where
  "CSVFileOut_write fs d s =
     (if out_fail s then (Inl (RuntimeError ''No file opened for writing''), fs, s)
      else let (fs2, s2) = ofstream_write [10]
                             (ofstream_write (map (\<lambda>c. word_of_nat (of_char c)) d) (fs, s))
           in (Inr (), fs2, s2))"

section \<open>\<open>Writer\<close>\<close>

text \<open>
  \<open>Writer<T, C, F>\<close> is a template over the converter \<open>C\<close> and the transport \<open>F\<close>: the
  model takes the converter's \<open>convert\<close> and the transport's three operations as arguments.
\<close>

record 'u FileOut =
  F_open :: "filesystem \<Rightarrow> string \<Rightarrow> ofstream \<Rightarrow> (exn + unit) \<times> filesystem \<times> ofstream"
  F_close :: "ofstream \<Rightarrow> ofstream"
  F_write :: "filesystem \<Rightarrow> 'u \<Rightarrow> ofstream \<Rightarrow> (exn + unit) \<times> filesystem \<times> ofstream"

definition BinFileOut :: "byte list FileOut" where
  "BinFileOut = \<lparr>F_open = BinFileOut_open, F_close = BinFileOut_close, F_write = BinFileOut_write\<rparr>"

definition CSVFileOut :: "string FileOut" where
  "CSVFileOut = \<lparr>F_open = CSVFileOut_open, F_close = CSVFileOut_close, F_write = CSVFileOut_write\<rparr>"

record Writer =
  w_file :: ofstream
  w_path :: string
  w_isOpen :: bool

definition Writer_init :: "string \<Rightarrow> Writer" where
  "Writer_init pFile = \<lparr>w_file = ofstream_init, w_path = pFile, w_isOpen = False\<rparr>"

definition Writer_open ::
  "'u FileOut \<Rightarrow> filesystem \<Rightarrow> string \<Rightarrow> Writer \<Rightarrow> (exn + unit) \<times> filesystem \<times> Writer" where
  "Writer_open F fs pFile w =
     (case F_open F fs pFile (w_file w) of
        (Inr u, fs', f) \<Rightarrow> (Inr (), fs', w\<lparr>w_file := f, w_isOpen := True\<rparr>)
      | (Inl ex, fs', f) \<Rightarrow>
          (Inl (RuntimeError (''Failed to open file: '' @ pFile @ '' ('' @ what ex @ '')'')),
           fs', w\<lparr>w_file := f\<rparr>))"

definition Writer_close :: "'u FileOut \<Rightarrow> Writer \<Rightarrow> Writer" where
  "Writer_close F w = w\<lparr>w_file := F_close F (w_file w), w_isOpen := False\<rparr>"

definition Writer_write ::
  "('t \<Rightarrow> 'u) \<Rightarrow> 'u FileOut \<Rightarrow> filesystem \<Rightarrow> 't \<Rightarrow> Writer \<Rightarrow> (exn + unit) \<times> filesystem \<times> Writer" where
  "Writer_write convert F fs d w =
     (case (if \<not> w_isOpen w
            then (if w_path w = [] then (Inl (RuntimeError ''File path is not set''), fs, w)
                  else Writer_open F fs (w_path w) w)
            else (Inr (), fs, w)) of
        (Inl ex, fs1, w1) \<Rightarrow> (Inl ex, fs1, w1)
      | (Inr u, fs1, w1) \<Rightarrow>
          (case F_write F fs1 (convert d) (w_file w1) of
             (res, fs2, f) \<Rightarrow> (res, fs2, w1\<lparr>w_file := f\<rparr>)))"

text \<open>\<open>std::ranges::for_each\<close> over the range: the first exception ends it.\<close>

fun write_each ::
  "('t \<Rightarrow> 'u) \<Rightarrow> 'u FileOut \<Rightarrow> filesystem \<Rightarrow> 't list \<Rightarrow> Writer \<Rightarrow> (exn + unit) \<times> filesystem \<times> Writer" where
  "write_each convert F fs [] w = (Inr (), fs, w)"
| "write_each convert F fs (item # items) w =
     (case F_write F fs (convert item) (w_file w) of
        (Inl ex, fs', f) \<Rightarrow> (Inl ex, fs', w\<lparr>w_file := f\<rparr>)
      | (Inr u, fs', f) \<Rightarrow> write_each convert F fs' items (w\<lparr>w_file := f\<rparr>))"

definition Writer_write_range ::
  "('t \<Rightarrow> 'u) \<Rightarrow> 'u FileOut \<Rightarrow> filesystem \<Rightarrow> 't list \<Rightarrow> Writer \<Rightarrow> (exn + unit) \<times> filesystem \<times> Writer" where
  "Writer_write_range convert F fs dataRange w =
     (case (if \<not> w_isOpen w
            then (if w_path w = [] then (Inl (RuntimeError ''File path is not set''), fs, w)
                  else Writer_open F fs (w_path w) w)
            else (Inr (), fs, w)) of
        (Inl ex, fs1, w1) \<Rightarrow> (Inl ex, fs1, w1)
      | (Inr u, fs1, w1) \<Rightarrow> write_each convert F fs1 dataRange w1)"

section \<open>Frames\<close>

text \<open>The four bytes of a length field, and the frame \<open>BinFileOut::write\<close> makes of a block.\<close>

definition size_bytes :: "32 word \<Rightarrow> byte list" where
  "size_bytes n = map (\<lambda>i. ucast (drop_bit (i * 8) n)) [0, 1, 2, 3]"

definition frame :: "byte list \<Rightarrow> byte list" where
  "frame d = size_bytes (word_of_nat (length d)) @ d"

lemma length_le_bytes [simp]: "length (le_bytes n v) = n"
  by (induction n arbitrary: v) simp_all

lemma le_value_le_bytes: "le_value (le_bytes n v) = v mod 256 ^ n"
proof (induction n arbitrary: v)
  case 0
  show ?case by simp
next
  case (Suc n)
  have "unat (word_of_nat (v mod 256) :: byte) = v mod 256"
    by (simp add: unat_of_nat)
  with Suc show ?case
    by (simp add: mod_mult2_eq)
qed

lemma length_object_bytes [simp]: "length (object_bytes e n w) = n"
  by (cases e) (simp_all add: object_bytes_def)

lemma object_value_bytes:
  fixes w :: "'a::len word"
  assumes "LENGTH('a) \<le> 8 * n"
  shows "object_value e (object_bytes e n w) = w"
proof -
  have "unat w < 2 ^ LENGTH('a)" by (rule unsigned_less)
  also have "(2::nat) ^ LENGTH('a) \<le> 2 ^ (8 * n)"
    using assms by (simp add: power_increasing)
  also have "(2::nat) ^ (8 * n) = 256 ^ n"
    by (simp add: power_mult)
  finally have "unat w mod 256 ^ n = unat w" by simp
  then have "le_value (le_bytes n (unat w)) = unat w"
    by (simp add: le_value_le_bytes)
  then show ?thesis
    by (cases e) (simp_all add: object_value_def object_bytes_def)
qed

lemma length_convert_double [simp]: "length (CasinoBinConverter_convert_double e d) = 12"
  by (simp add: CasinoBinConverter_convert_double_def)

lemma convert_bytes_convert_double:
  "CasinoBinConverter_convert_bytes e (CasinoBinConverter_convert_double e d) = Inr d"
proof -
  have c: "(object_value e (object_bytes e 4 (1 :: 32 word)) :: 32 word) = 1"
    by (rule object_value_bytes) simp
  have v: "(object_value e (object_bytes e 8 d) :: 64 word) = d"
    by (rule object_value_bytes) simp
  show ?thesis
    by (simp add: CasinoBinConverter_convert_bytes_def CasinoBinConverter_convert_double_def c v)
qed

lemma size_bytes_12: "size_bytes 12 = [12, 0, 0, 0]"
  by (simp add: size_bytes_def drop_bit_eq_div)

lemma frame_convert_double:
  "frame (CasinoBinConverter_convert_double e d) = [12, 0, 0, 0] @ CasinoBinConverter_convert_double e d"
  by (simp add: frame_def size_bytes_12)

lemma read_unit_frame:
  "read_unit e (opened (frame (CasinoBinConverter_convert_double e d) @ bs)) = (Inr d, opened bs)"
proof -
  have lf: "unat (length_field 12 0 0 0) = 12"
    by (simp add: length_field_def)
  have "BinFileIn_read (opened (frame (CasinoBinConverter_convert_double e d) @ bs)) =
      (Inr (CasinoBinConverter_convert_double e d), opened bs)"
    by (simp add: frame_convert_double BinFileIn_read_frame lf)
  moreover have "CasinoBinConverter_convert_double e d \<noteq> []"
    using length_convert_double [of e d] by (metis length_0_conv zero_neq_numeral)
  ultimately show ?thesis
    by (simp add: read_unit_def convert_bytes_convert_double)
qed


lemma Reader_read_raises_runtime_error:
  assumes "Reader_read e fs r = (Inl ex, r1)"
  shows "\<exists>msg. ex = RuntimeError msg"
  using assms
  by (auto simp add: Reader_read_def Reader_open_eq split: if_splits prod.splits sum.splits option.splits)

lemma load_loop_Inr: "fst (load_loop e fs r) = Inr ()"
proof (induction e fs r rule: load_loop.induct)
  case (1 e fs r)
  obtain res r1 where rr: "Reader_read e fs r = (res, r1)"
    by (cases "Reader_read e fs r")
  show ?case
  proof (cases res)
    case (Inl ex)
    with rr obtain msg where "ex = RuntimeError msg"
      using Reader_read_raises_runtime_error by blast
    with rr Inl show ?thesis
      by (subst load_loop.simps) simp
  next
    case (Inr item)
    with rr 1 show ?thesis
      by (subst load_loop.simps) simp
  qed
qed

lemma Reader_read_open_frame:
  assumes "r_isOpen r"
    and "r_file r = opened (frame (CasinoBinConverter_convert_double e d) @ bs)"
  shows "Reader_read e fs r = (Inr d, r\<lparr>r_file := opened bs\<rparr>)"
  using assms by (simp add: Reader_read_def read_unit_frame)

lemma Reader_read_open_stop:
  assumes "r_isOpen r" and "r_file r = opened rest_bytes" and "read_unit e (opened rest_bytes) = (Inl ex, f)"
  shows "Reader_read e fs r =
    (Inl (RuntimeError (''Failed to read/convert data: '' @ what ex)), r\<lparr>r_file := f\<rparr>)"
  using assms by (simp add: Reader_read_def)

text \<open>
  Loading a file that starts with the frames of \<open>xs\<close> and goes on with bytes at which a
  read stops: the buffer grows by exactly \<open>xs\<close>, in order.
\<close>

lemma load_loop_frames:
  assumes "r_isOpen r"
    and "r_file r = opened (concat (map (\<lambda>d. frame (CasinoBinConverter_convert_double e d)) xs) @ rest_bytes)"
    and "read_unit e (opened rest_bytes) = (Inl ex, f)"
  shows "fst (snd (load_loop e fs r)) = r\<lparr>r_file := f, r_data := r_data r @ xs\<rparr>"
  using assms
proof (induction xs arbitrary: r)
  case Nil
  then have "Reader_read e fs r =
      (Inl (RuntimeError (''Failed to read/convert data: '' @ what ex)), r\<lparr>r_file := f\<rparr>)"
    by (simp add: Reader_read_open_stop)
  then show ?case
    by (subst load_loop.simps) simp
next
  case (Cons x xs)
  let ?bs = "concat (map (\<lambda>d. frame (CasinoBinConverter_convert_double e d)) xs) @ rest_bytes"
  from Cons.prems have rd: "Reader_read e fs r = (Inr x, r\<lparr>r_file := opened ?bs\<rparr>)"
    by (simp add: Reader_read_open_frame)
  let ?r = "r\<lparr>r_file := opened ?bs, r_data := r_data r @ [x]\<rparr>"
  have "fst (snd (load_loop e fs ?r)) = ?r\<lparr>r_file := f, r_data := r_data ?r @ xs\<rparr>"
    using Cons.prems by (intro Cons.IH) simp_all
  then show ?case
    using rd by (subst load_loop.simps) simp
qed

lemma Reader_load_eq:
  "Reader_load e fs r =
     (if \<not> r_isOpen r \<and> r_path r = [] then (Inl (RuntimeError ''File path is not set''), r, [])
      else if \<not> r_isOpen r \<and> fs (r_path r) = None
      then (fst (Reader_open fs (r_path r) r), snd (Reader_open fs (r_path r) r), [])
      else let r1 = (if r_isOpen r then r else snd (Reader_open fs (r_path r) r));
               l = load_loop e fs (Reader_flush r1)
           in (Inr (), Reader_close (fst (snd l)), snd (snd l)))"
proof -
  have l: "\<And>r1. \<exists>r2 cerr. load_loop e fs r1 = (Inr (), r2, cerr)"
    using load_loop_Inr by (metis (full_types) prod.collapse)
  show ?thesis
  proof (cases "r_isOpen r")
    case True
    obtain r2 cerr where "load_loop e fs (Reader_flush r) = (Inr (), r2, cerr)"
      using l by blast
    with True show ?thesis
      by (simp add: Reader_load_def)
  next
    case False
    show ?thesis
    proof (cases "fs (r_path r)")
      case None
      with False show ?thesis
        by (simp add: Reader_load_def Reader_open_eq)
    next
      case (Some bs)
      obtain r2 cerr where
        "load_loop e fs (Reader_flush (r\<lparr>r_file := opened bs, r_isOpen := True\<rparr>)) = (Inr (), r2, cerr)"
        using l by blast
      with False Some show ?thesis
        by (simp add: Reader_load_def Reader_open_eq)
    qed
  qed
qed

lemma Reader_load_ok:
  assumes "r_isOpen r \<or> (r_path r \<noteq> [] \<and> fs (r_path r) \<noteq> None)"
  shows "Reader_load e fs r =
     (let r1 = (if r_isOpen r then r else snd (Reader_open fs (r_path r) r));
          l = load_loop e fs (Reader_flush r1)
      in (Inr (), Reader_close (fst (snd l)), snd (snd l)))"
  using assms by (auto simp add: Reader_load_eq)

section \<open>Writing frames\<close>

text \<open>Overwriting a file's bytes from a position on, as a write through \<open>r+\<close> does.\<close>

definition overwrite :: "nat \<Rightarrow> byte list \<Rightarrow> byte list \<Rightarrow> byte list" where
  "overwrite pos bs old = take pos old @ bs @ drop (pos + length bs) old"

text \<open>An output stream attached to \<open>p\<close> by \<open>r+\<close>, in good state, at put position \<open>pos\<close>.\<close>

definition writing :: "string \<Rightarrow> nat \<Rightarrow> ofstream" where
  "writing p pos =
     \<lparr>out_is_open = True, out_path = p, out_pos = pos, out_append = False,
      out_failbit = False, out_badbit = False\<rparr>"

lemma overwrite_overwrite:
  "pos \<le> length old \<Longrightarrow>
     overwrite (pos + length a) b (overwrite pos a old) = overwrite pos (a @ b) old"
  by (simp add: overwrite_def min_def add.commute add.left_commute)

lemma length_overwrite:
  "pos \<le> length old \<Longrightarrow> pos + length bs \<le> length (overwrite pos bs old)"
  by (simp add: overwrite_def)

lemma overwrite_Nil [simp]: "pos \<le> length old \<Longrightarrow> overwrite pos [] old = old"
  by (simp add: overwrite_def)

lemma ofstream_write_at:
  "fs p = Some old \<Longrightarrow>
     ofstream_write bs (fs, writing p pos) =
       (fs(p \<mapsto> overwrite pos bs old), writing p (pos + length bs))"
  by (simp add: ofstream_write_def writing_def out_fail_def overwrite_def)

lemma write_size_step:
  "i < 4 \<Longrightarrow> write_size i n st =
     write_size (Suc i) n (ofstream_write [ucast (drop_bit (i * 8) n)] st)"
  by (subst write_size.simps) (simp add: Let_def)

lemma write_size_done: "\<not> i < 4 \<Longrightarrow> write_size i n st = st"
  by (subst write_size.simps) simp

lemma ofstream_write_twice:
  assumes "fs p = Some old" and "pos \<le> length old"
  shows "ofstream_write b (ofstream_write a (fs, writing p pos)) =
       ofstream_write (a @ b) (fs, writing p pos)"
  using assms by (simp add: ofstream_write_at overwrite_overwrite add.assoc)

lemma write_size_at:
  assumes "fs p = Some old" and "pos \<le> length old"
  shows "write_size 0 n (fs, writing p pos) = ofstream_write (size_bytes n) (fs, writing p pos)"
proof -
  let ?b = "\<lambda>i. [ucast (drop_bit (i * 8) n) :: byte]"
  let ?st = "(fs, writing p pos)"
  have "write_size 0 n ?st =
      ofstream_write (?b 3) (ofstream_write (?b 2) (ofstream_write (?b 1) (ofstream_write (?b 0) ?st)))"
    by (simp add: write_size_step write_size_done)
  also have "\<dots> = ofstream_write (((?b 0 @ ?b 1) @ ?b 2) @ ?b 3) ?st"
    by (simp only: ofstream_write_twice [where fs=fs and p=p and old=old and pos=pos, OF assms])
  finally show ?thesis
    by (simp add: size_bytes_def)
qed

lemma BinFileOut_write_at:
  assumes "fs p = Some old" and "pos \<le> length old"
  shows "BinFileOut_write fs d (writing p pos) =
       (Inr (), fs(p \<mapsto> overwrite pos (frame d) old), writing p (pos + length (frame d)))"
proof -
  have nf: "\<not> out_fail (writing p pos)"
    by (simp add: out_fail_def writing_def)
  have "ofstream_write d (write_size 0 (word_of_nat (length d)) (fs, writing p pos)) =
      ofstream_write (frame d) (fs, writing p pos)"
    by (simp only: write_size_at [where fs=fs and p=p and old=old and pos=pos, OF assms]
        ofstream_write_twice [where fs=fs and p=p and old=old and pos=pos, OF assms] frame_def)
  then show ?thesis
    using assms(1) by (simp add: BinFileOut_write_def nf ofstream_write_at)
qed

lemma write_each_at:
  assumes "fs p = Some old" and "pos \<le> length old" and "w_file w = writing p pos"
  shows "write_each cv BinFileOut fs xs w =
       (Inr (), fs(p \<mapsto> overwrite pos (concat (map (\<lambda>d. frame (cv d)) xs)) old),
        w\<lparr>w_file := writing p (pos + length (concat (map (\<lambda>d. frame (cv d)) xs)))\<rparr>)"
  using assms
proof (induction xs arbitrary: fs old pos w)
  case Nil
  then have "fs(p \<mapsto> old) = fs" and "w\<lparr>w_file := writing p pos\<rparr> = w"
    by (simp_all add: map_upd_triv)
  with Nil show ?case by simp
next
  case (Cons x xs)
  let ?fs = "fs(p \<mapsto> overwrite pos (frame (cv x)) old)"
  let ?w = "w\<lparr>w_file := writing p (pos + length (frame (cv x)))\<rparr>"
  have st: "F_write BinFileOut fs (cv x) (w_file w) =
      (Inr (), ?fs, writing p (pos + length (frame (cv x))))"
    using Cons.prems by (simp add: BinFileOut_def BinFileOut_write_at)
  have ih: "write_each cv BinFileOut ?fs xs ?w =
      (Inr (),
       ?fs(p \<mapsto> overwrite (pos + length (frame (cv x))) (concat (map (\<lambda>d. frame (cv d)) xs))
                  (overwrite pos (frame (cv x)) old)),
       ?w\<lparr>w_file := writing p (pos + length (frame (cv x)) +
                length (concat (map (\<lambda>d. frame (cv d)) xs)))\<rparr>)"
    using length_overwrite [OF Cons.prems(2), of "frame (cv x)"]
    by (intro Cons.IH) simp_all
  show ?case
    using st ih overwrite_overwrite [OF Cons.prems(2), of "frame (cv x)"
        "concat (map (\<lambda>d. frame (cv d)) xs)"]
    by (auto simp add: add.assoc fun_upd_def)
qed

lemma BinFileOut_open_eq:
  "BinFileOut_open fs p s =
     (case fs p of
        None \<Rightarrow> (Inl (RuntimeError (''Failed to open file: '' @ p)), fs,
                 (BinFileOut_close s)\<lparr>out_failbit := True\<rparr>)
      | Some bs \<Rightarrow> (Inr (), fs, writing p 0))"
  by (simp add: BinFileOut_open_def BinFileOut_close_def ofstream_close_def ofstream_open_def
      fopen_mode_def Let_def out_fail_def writing_def split: option.splits)

lemma CSVFileOut_open_eq:
  "CSVFileOut_open fs p s =
     (case fs p of
        None \<Rightarrow> (Inl (RuntimeError (''Failed to open file: '' @ p)), fs,
                 (CSVFileOut_close s)\<lparr>out_failbit := True\<rparr>)
      | Some bs \<Rightarrow> (Inr (), fs, writing p 0))"
  by (simp add: CSVFileOut_open_def CSVFileOut_close_def ofstream_close_def ofstream_open_def
      fopen_mode_def Let_def out_fail_def writing_def split: option.splits)

text \<open>
  Writing a range through a writer that is not open yet, to a file that exists: the frames
  replace the first bytes of the file and the bytes behind them stay.
\<close>

lemma Writer_write_range_existing:
  assumes "fs p = Some old" and "\<not> w_isOpen w" and "w_path w = p" and "p \<noteq> []"
  shows "Writer_write_range cv BinFileOut fs xs w =
       (Inr (),
        fs(p \<mapsto> concat (map (\<lambda>d. frame (cv d)) xs)
                  @ drop (length (concat (map (\<lambda>d. frame (cv d)) xs))) old),
        w\<lparr>w_file := writing p (length (concat (map (\<lambda>d. frame (cv d)) xs))), w_isOpen := True\<rparr>)"
proof -
  let ?w = "w\<lparr>w_file := writing p 0, w_isOpen := True\<rparr>"
  have o: "Writer_open BinFileOut fs p w = (Inr (), fs, ?w)"
    using assms(1) by (simp add: Writer_open_def BinFileOut_def BinFileOut_open_eq)
  have "write_each cv BinFileOut fs xs ?w =
      (Inr (), fs(p \<mapsto> overwrite 0 (concat (map (\<lambda>d. frame (cv d)) xs)) old),
       ?w\<lparr>w_file := writing p (0 + length (concat (map (\<lambda>d. frame (cv d)) xs)))\<rparr>)"
    using assms(1) by (intro write_each_at) simp_all
  then show ?thesis
    using assms o by (simp add: Writer_write_range_def overwrite_def)
qed

lemma Reader_load_frames:
  assumes "\<not> r_isOpen r" and "r_path r \<noteq> []"
    and "fs (r_path r) =
           Some (concat (map (\<lambda>d. frame (CasinoBinConverter_convert_double e d)) xs) @ rest_bytes)"
    and "read_unit e (opened rest_bytes) = (Inl ex, f)"
  shows "fst (Reader_load e fs r) = Inr () \<and> r_data (fst (snd (Reader_load e fs r))) = xs"
proof -
  let ?r = "Reader_flush (r\<lparr>r_file := opened
      (concat (map (\<lambda>d. frame (CasinoBinConverter_convert_double e d)) xs) @ rest_bytes),
      r_isOpen := True\<rparr>)"
  have "fst (snd (load_loop e fs ?r)) = ?r\<lparr>r_file := f, r_data := r_data ?r @ xs\<rparr>"
    by (rule load_loop_frames [OF _ _ assms(4)]) (simp_all add: Reader_flush_def)
  with assms(1-3) show ?thesis
    by (simp add: Reader_load_eq Let_def Reader_open_eq Reader_close_def Reader_flush_def)
qed

lemma read_unit_at_end:
  "read_unit e (opened []) =
     (Inl (RuntimeError ''End of file reached''), (opened [])\<lparr>eofbit := True, failbit := True\<rparr>)"
  by (simp add: read_unit_def BinFileIn_read_short)

text \<open>
  Writing \<open>xs\<close> to an existing file and loading the file again: the load returns \<open>xs\<close>
  followed by whatever the bytes left behind the new frames decode to.
\<close>

lemma write_then_load:
  assumes "fs p = Some old" and "p \<noteq> []"
    and "drop (length (concat (map (\<lambda>d. frame (CasinoBinConverter_convert_double e d)) xs))) old =
           concat (map (\<lambda>d. frame (CasinoBinConverter_convert_double e d)) zs) @ rest_bytes"
    and "read_unit e (opened rest_bytes) = (Inl ex, f)"
  shows "fst (Writer_write_range (CasinoBinConverter_convert_double e) BinFileOut fs xs
               (Writer_init p)) = Inr ()
       \<and> fst (Reader_load e
               (fst (snd (Writer_write_range (CasinoBinConverter_convert_double e) BinFileOut fs xs
                            (Writer_init p))))
               (Reader_init p)) = Inr ()
       \<and> Reader_getData (fst (snd (Reader_load e
               (fst (snd (Writer_write_range (CasinoBinConverter_convert_double e) BinFileOut fs xs
                            (Writer_init p))))
               (Reader_init p)))) = xs @ zs"
proof -
  let ?fr = "\<lambda>ys. concat (map (\<lambda>d. frame (CasinoBinConverter_convert_double e d)) ys)"
  let ?fs = "fs(p \<mapsto> ?fr xs @ drop (length (?fr xs)) old)"
  have w: "Writer_write_range (CasinoBinConverter_convert_double e) BinFileOut fs xs (Writer_init p) =
      (Inr (), ?fs,
       (Writer_init p)\<lparr>w_file := writing p (length (?fr xs)), w_isOpen := True\<rparr>)"
    using assms(1,2) by (intro Writer_write_range_existing) (simp_all add: Writer_init_def)
  have c: "?fs (r_path (Reader_init p)) = Some (?fr (xs @ zs) @ rest_bytes)"
    using assms(3) by (simp add: Reader_init_def)
  have "fst (Reader_load e ?fs (Reader_init p)) = Inr ()
      \<and> r_data (fst (snd (Reader_load e ?fs (Reader_init p)))) = xs @ zs"
    using assms(2) c assms(4)
      Reader_load_frames [where r="Reader_init p" and fs="?fs" and e=e and xs="xs @ zs"
        and rest_bytes=rest_bytes and ex=ex and f=f]
    by (simp add: Reader_init_def)
  then show ?thesis
    by (simp add: w Reader_getData_def)
qed

text \<open>
  The round trip holds when the file that was there held no more bytes than the frames
  written over it.
\<close>

lemma roundtrip_when_file_not_longer:
  assumes "fs p = Some old" and "p \<noteq> []"
    and "length old \<le> length (concat (map (\<lambda>d. frame (CasinoBinConverter_convert_double e d)) xs))"
  shows "Reader_getData (fst (snd (Reader_load e
               (fst (snd (Writer_write_range (CasinoBinConverter_convert_double e) BinFileOut fs xs
                            (Writer_init p))))
               (Reader_init p)))) = xs"
  using write_then_load [where fs=fs and p=p and old=old and e=e and xs=xs and zs="[]"
      and rest_bytes="[]"] assms read_unit_at_end [of e]
  by simp

lemma le_bytes_numeral:
  "le_bytes (numeral k) v = word_of_nat (v mod 256) # le_bytes (pred_numeral k) (v div 256)"
  unfolding numeral_eq_Suc [of k] by (rule le_bytes.simps)

lemma frames_2_3:
  "concat (map (\<lambda>d. frame (CasinoBinConverter_convert_double LittleEndian d))
     [0x4000000000000000, 0x4008000000000000]) =
   [12, 0, 0, 0, 1, 0, 0, 0, 0, 0, 0, 0, 0, 0, 0, 64,
    12, 0, 0, 0, 1, 0, 0, 0, 0, 0, 0, 0, 0, 0, 8, 64]"
  by (simp add: frame_convert_double)
     (simp add: CasinoBinConverter_convert_double_def object_bytes_def le_bytes_numeral)

section \<open>Decimal numerals\<close>

definition digit_char :: "nat \<Rightarrow> char" where
  "digit_char d = ''0123456789'' ! d"

definition is_digit :: "char \<Rightarrow> bool" where
  "is_digit c = (c \<in> set ''0123456789'')"

definition digit_val :: "char \<Rightarrow> nat" where
  "digit_val c = of_char c - 48"

text \<open>The decimal digits of a natural number, and \<open>std::to_string\<close> of an \<open>int\<close>.\<close>

fun digits :: "nat \<Rightarrow> string" where
  "digits n = (if n < 10 then [digit_char n] else digits (n div 10) @ [digit_char (n mod 10)])"

declare digits.simps [simp del]

definition to_string :: "int \<Rightarrow> string" where
  "to_string i = (if i < 0 then CHR ''-'' # digits (nat (- i)) else digits (nat i))"

text \<open>The value of a string of decimal digits.\<close>

definition nat_of_digits :: "string \<Rightarrow> nat" where
  "nat_of_digits s = foldl (\<lambda>acc c. acc * 10 + digit_val c) 0 s"

lemma digit_val_digit_char: "d < 10 \<Longrightarrow> digit_val (digit_char d) = d"
proof -
  assume "d < 10"
  then have "d = 0 \<or> d = 1 \<or> d = 2 \<or> d = 3 \<or> d = 4 \<or> d = 5 \<or> d = 6 \<or> d = 7
      \<or> d = 8 \<or> d = 9"
    by presburger
  then show ?thesis
    by (elim disjE) (simp_all add: digit_val_def digit_char_def)
qed

lemma is_digit_digit_char: "d < 10 \<Longrightarrow> is_digit (digit_char d)"
proof -
  assume "d < 10"
  then have "d = 0 \<or> d = 1 \<or> d = 2 \<or> d = 3 \<or> d = 4 \<or> d = 5 \<or> d = 6 \<or> d = 7
      \<or> d = 8 \<or> d = 9"
    by presburger
  then show ?thesis
    by (elim disjE) (simp_all add: is_digit_def digit_char_def)
qed

lemma nat_of_digits_snoc: "nat_of_digits (s @ [c]) = nat_of_digits s * 10 + digit_val c"
  by (simp add: nat_of_digits_def)

lemma nat_of_digits_digits: "nat_of_digits (digits n) = n"
proof (induction n rule: digits.induct)
  case (1 n)
  show ?case
  proof (cases "n < 10")
    case True
    then show ?thesis
      by (subst digits.simps) (simp add: nat_of_digits_def digit_val_digit_char)
  next
    case False
    with 1 have "nat_of_digits (digits (n div 10)) = n div 10" by simp
    with False show ?thesis
      by (subst digits.simps) (simp add: nat_of_digits_snoc digit_val_digit_char)
  qed
qed

lemma digits_all_digits: "\<forall>c \<in> set (digits n). is_digit c"
proof (induction n rule: digits.induct)
  case (1 n)
  show ?case
  proof (cases "n < 10")
    case True
    then show ?thesis
      by (subst digits.simps) (simp add: is_digit_digit_char)
  next
    case False
    with 1 show ?thesis
      by (subst digits.simps) (simp add: is_digit_digit_char)
  qed
qed

lemma digits_inj: "digits m = digits n \<Longrightarrow> m = n"
  by (metis nat_of_digits_digits)

lemma to_string_inj_nat: "to_string (int m) = to_string (int n) \<Longrightarrow> m = n"
  by (simp add: to_string_def digits_inj)

section \<open>\<open>OutputManager\<close>\<close>

text \<open>
  The directories, as \<open>std::filesystem\<close> shows them: which paths exist, and which paths
  the system would let \<open>create_directory\<close> make.
\<close>

record dirs =
  d_exists :: "string \<Rightarrow> bool"
  d_creatable :: "string \<Rightarrow> bool"

text \<open>
  \<open>std::filesystem::create_directory\<close>: \<open>false\<close> when the path is there already,
  \<open>true\<close> after making it, \<open>filesystem_error\<close> when the system refuses.
\<close>

definition create_directory :: "dirs \<Rightarrow> string \<Rightarrow> (exn + bool) \<times> dirs" where
  "create_directory ds p =
     (if d_exists ds p then (Inr False, ds)
      else if d_creatable ds p then (Inr True, ds\<lparr>d_exists := (d_exists ds)(p := True)\<rparr>)
      else (Inl FilesystemError, ds))"

text \<open>
  \<open>counter\<close> is a C++ \<open>int\<close>; it is modelled as an integer, and the claims about it
  are stated for fewer calls than would overflow it.
\<close>

record OutputManager =
  writers :: "Writer list"
  om_basePath :: string
  replicationName :: string
  currentReplicationName :: string
  currentReplicationPath :: string
  counter :: int

definition OutputManager_init :: OutputManager where
  "OutputManager_init =
     \<lparr>writers = [], om_basePath = [], replicationName = [], currentReplicationName = [],
      currentReplicationPath = [], counter = 1\<rparr>"

definition OutputManager_setBasePath :: "string \<Rightarrow> OutputManager \<Rightarrow> OutputManager" where
  "OutputManager_setBasePath path om =
     (let om1 = om\<lparr>om_basePath := path\<rparr>
      in if om_basePath om1 \<noteq> [] \<and> last (om_basePath om1) \<noteq> CHR ''/''
         then om1\<lparr>om_basePath := om_basePath om1 @ ''/''\<rparr> else om1)"

definition OutputManager_getBasePath :: "OutputManager \<Rightarrow> string" where
  "OutputManager_getBasePath om = om_basePath om"

definition getName :: "OutputManager \<Rightarrow> string" where
  "getName om = replicationName om"

definition setName :: "string \<Rightarrow> OutputManager \<Rightarrow> OutputManager" where
  "setName name om = om\<lparr>replicationName := name\<rparr>"

definition setCurrentReplicationName :: "string \<Rightarrow> OutputManager \<Rightarrow> OutputManager" where
  "setCurrentReplicationName name om = om\<lparr>currentReplicationName := name\<rparr>"

definition setCurrentReplicationPath :: "string \<Rightarrow> OutputManager \<Rightarrow> OutputManager" where
  "setCurrentReplicationPath path om = om\<lparr>currentReplicationPath := path\<rparr>"

definition registerWriter :: "Writer \<Rightarrow> OutputManager \<Rightarrow> OutputManager" where
  "registerWriter writer om = om\<lparr>writers := writers om @ [writer]\<rparr>"

definition getWriter :: "int \<Rightarrow> OutputManager \<Rightarrow> exn + Writer" where
  "getWriter index om =
     (if index < 0 \<or> index \<ge> int (length (writers om)) then Inl (OutOfRange ''Index out of range'')
      else Inr (writers om ! nat index))"

text \<open>\<open>wclose\<close> is the writers' virtual \<open>IWriter::close\<close>.\<close>

definition closeAllWriters :: "(Writer \<Rightarrow> Writer) \<Rightarrow> OutputManager \<Rightarrow> OutputManager" where
  "closeAllWriters wclose om = om\<lparr>writers := map wclose (writers om)\<rparr>"

text \<open>\<open>init\<close> is the pure virtual \<open>init()\<close> of the derived manager.\<close>

definition newReplication ::
  "(OutputManager \<Rightarrow> (exn + unit) \<times> OutputManager) \<Rightarrow> (Writer \<Rightarrow> Writer) \<Rightarrow>
   dirs \<Rightarrow> OutputManager \<Rightarrow> (exn + unit) \<times> dirs \<times> OutputManager" where
  "newReplication init wclose ds om =
     (let om1 = closeAllWriters wclose om;
          om2 = om1\<lparr>writers := []\<rparr>;
          om3 = setCurrentReplicationName (getName om2 @ to_string (counter om2)) om2;
          om4 = setCurrentReplicationPath
                  (OutputManager_getBasePath om3 @ currentReplicationName om3 @ ''/'') om3;
          om5 = om4\<lparr>counter := counter om4 + 1\<rparr>
      in if \<not> d_exists ds (currentReplicationPath om5) then
           (case create_directory ds (currentReplicationPath om5) of
              (Inl ex, ds') \<Rightarrow> (Inl ex, ds', om5)
            | (Inr created, ds') \<Rightarrow>
                if \<not> created
                then (Inl (RuntimeError (''Failed to create directory: '' @ currentReplicationPath om5)),
                      ds', om5)
                else (case init om5 of (res, om6) \<Rightarrow> (res, ds', om6)))
         else (case init om5 of (res, om6) \<Rightarrow> (res, ds, om6)))"

text \<open>\<open>CasinoBinOutputManager::init\<close>.\<close>

definition CasinoBinOutputManager_init :: "OutputManager \<Rightarrow> (exn + unit) \<times> OutputManager" where
  "CasinoBinOutputManager_init om =
     (let path = currentReplicationPath om;
          writer1 = Writer_init (path @ ''ruleta_red.csv'');
          writer2 = Writer_init (path @ ''ruleta_alt.csv'');
          writer3 = Writer_init (path @ ''automat.csv'');
          writer4 = Writer_init (path @ ''blackjack_con.csv'');
          writer5 = Writer_init (path @ ''blackjack_agg.csv'')
      in (Inr (), registerWriter writer5 (registerWriter writer4 (registerWriter writer3
                    (registerWriter writer2 (registerWriter writer1 om))))))"

text \<open>
  Successive calls of \<open>newReplication()\<close> on one manager. Each call meets the directories
  as they are at that moment, whatever happened to them in between, and the manager goes
  on after a call that raised.
\<close>

fun newReplications ::
  "(OutputManager \<Rightarrow> (exn + unit) \<times> OutputManager) \<Rightarrow> (Writer \<Rightarrow> Writer) \<Rightarrow>
   dirs list \<Rightarrow> OutputManager \<Rightarrow> OutputManager" where
  "newReplications init wclose [] om = om"
| "newReplications init wclose (ds # dss) om =
     newReplications init wclose dss (snd (snd (newReplication init wclose ds om)))"

text \<open>A derived \<open>init()\<close> that leaves the prefix name alone (the counter is private).\<close>

definition keeps_name :: "(OutputManager \<Rightarrow> (exn + unit) \<times> OutputManager) \<Rightarrow> bool" where
  "keeps_name init =
     (\<forall>om. counter (snd (init om)) = counter om
         \<and> replicationName (snd (init om)) = replicationName om
         \<and> currentReplicationName (snd (init om)) = currentReplicationName om)"

lemma newReplication_fields:
  assumes "keeps_name init"
  shows "counter (snd (snd (newReplication init wclose ds om))) = counter om + 1
       \<and> replicationName (snd (snd (newReplication init wclose ds om))) = replicationName om
       \<and> currentReplicationName (snd (snd (newReplication init wclose ds om))) =
           replicationName om @ to_string (counter om)"
proof -
  let ?om5 = "om\<lparr>writers := [], currentReplicationName := replicationName om @ to_string (counter om),
      currentReplicationPath := om_basePath om @ (replicationName om @ to_string (counter om)) @ ''/'',
      counter := counter om + 1\<rparr>"
  have i: "counter (snd (init ?om5)) = counter om + 1
      \<and> replicationName (snd (init ?om5)) = replicationName om
      \<and> currentReplicationName (snd (init ?om5)) = replicationName om @ to_string (counter om)"
    using assms by (simp add: keeps_name_def)
  have "snd (snd (newReplication init wclose ds om)) = ?om5
      \<or> snd (snd (newReplication init wclose ds om)) = snd (init ?om5)"
    by (auto simp add: newReplication_def Let_def closeAllWriters_def
        setCurrentReplicationName_def setCurrentReplicationPath_def getName_def
        OutputManager_getBasePath_def split: prod.splits sum.splits)
  then show ?thesis
  proof
    assume "snd (snd (newReplication init wclose ds om)) = ?om5"
    then show ?thesis by simp
  next
    assume "snd (snd (newReplication init wclose ds om)) = snd (init ?om5)"
    with i show ?thesis by simp
  qed
qed

lemma newReplications_snoc:
  "newReplications init wclose (dss @ [ds]) om =
     snd (snd (newReplication init wclose ds (newReplications init wclose dss om)))"
  by (induction dss arbitrary: om) simp_all

lemma newReplications_fields:
  assumes "keeps_name init"
  shows "counter (newReplications init wclose dss om) = counter om + int (length dss)
       \<and> replicationName (newReplications init wclose dss om) = replicationName om
       \<and> (dss \<noteq> [] \<longrightarrow> currentReplicationName (newReplications init wclose dss om) =
             replicationName om @ to_string (counter om + int (length dss) - 1))"
proof (induction dss rule: rev_induct)
  case Nil
  show ?case by simp
next
  case (snoc ds dss)
  from snoc newReplication_fields [OF assms, of wclose ds "newReplications init wclose dss om"]
  show ?case
    by (simp add: newReplications_snoc)
qed

lemma keeps_name_CasinoBin: "keeps_name CasinoBinOutputManager_init"
  by (simp add: keeps_name_def CasinoBinOutputManager_init_def Let_def registerWriter_def)

section \<open>\<open>Replication\<close> and \<open>InputManager\<close>\<close>

record Replication =
  rep_name :: string
  rep_basePath :: string
  readers :: "Reader list"

definition Replication_init :: "string \<Rightarrow> Replication" where
  "Replication_init name = \<lparr>rep_name = name, rep_basePath = [], readers = []\<rparr>"

definition Replication_setBasePath :: "string \<Rightarrow> Replication \<Rightarrow> Replication" where
  "Replication_setBasePath path rep =
     (let rep1 = rep\<lparr>rep_basePath := path\<rparr>
      in if rep_basePath rep1 \<noteq> [] \<and> last (rep_basePath rep1) \<noteq> CHR ''/''
         then rep1\<lparr>rep_basePath := rep_basePath rep1 @ ''/''\<rparr> else rep1)"

definition Replication_setName :: "string \<Rightarrow> Replication \<Rightarrow> Replication" where
  "Replication_setName newName rep = rep\<lparr>rep_name := newName\<rparr>"

definition Replication_getName :: "Replication \<Rightarrow> string" where
  "Replication_getName rep = rep_name rep"

definition registerReader :: "Reader \<Rightarrow> Replication \<Rightarrow> Replication" where
  "registerReader reader rep = rep\<lparr>readers := readers rep @ [reader]\<rparr>"

definition getReader :: "int \<Rightarrow> Replication \<Rightarrow> exn + Reader" where
  "getReader index rep =
     (if index < 0 \<or> index \<ge> int (length (readers rep)) then Inl (OutOfRange ''Index out of range'')
      else Inr (readers rep ! nat index))"

definition getReaderCount :: "Replication \<Rightarrow> nat" where
  "getReaderCount rep = length (readers rep)"

text \<open>\<open>CasinoBinReplication::init\<close>.\<close>

definition CasinoBinReplication_init :: "Replication \<Rightarrow> (exn + unit) \<times> Replication" where
  "CasinoBinReplication_init rep =
     (let path = rep_basePath rep;
          reader1 = Reader_init (path @ ''ruleta_red.csv'');
          reader2 = Reader_init (path @ ''ruleta_alt.csv'');
          reader3 = Reader_init (path @ ''automat.csv'');
          reader4 = Reader_init (path @ ''blackjack_con.csv'');
          reader5 = Reader_init (path @ ''blackjack_agg.csv'')
      in (Inr (), registerReader reader5 (registerReader reader4 (registerReader reader3
                    (registerReader reader2 (registerReader reader1 rep))))))"

text \<open>
  \<open>std::string::find_last_not_of(chars)\<close>: the index of the last character that is not
  in \<open>chars\<close>; \<open>None\<close> is \<open>npos\<close>.
\<close>

fun find_last_not_of :: "string \<Rightarrow> string \<Rightarrow> nat option" where
  "find_last_not_of chars [] = None"
| "find_last_not_of chars (c # cs) =
     (case find_last_not_of chars cs of
        Some i \<Rightarrow> Some (Suc i)
      | None \<Rightarrow> if c \<in> set chars then None else Some 0)"

text \<open>\<open>find_last_not_of("0123456789") + 1\<close>: \<open>npos + 1\<close> wraps around to 0.\<close>

definition numStart :: "string \<Rightarrow> nat" where
  "numStart name = (case find_last_not_of ''0123456789'' name of None \<Rightarrow> 0 | Some i \<Rightarrow> i + 1)"

text \<open>
  \<open>std::stoi\<close>: leading white space, an optional sign, then decimal digits;
  \<open>invalid_argument\<close> without a digit, \<open>out_of_range\<close> outside \<open>int\<close>.
\<close>

definition is_space :: "char \<Rightarrow> bool" where
  "is_space c = (c \<in> set [CHR '' '', CHR 0x09, CHR 0x0A, CHR 0x0B, CHR 0x0C, CHR 0x0D])"

definition stoi :: "string \<Rightarrow> exn + int" where
  "stoi s =
     (let s1 = dropWhile is_space s;
          neg = (s1 \<noteq> [] \<and> hd s1 = CHR ''-'');
          s2 = (if s1 \<noteq> [] \<and> (hd s1 = CHR ''-'' \<or> hd s1 = CHR ''+'') then tl s1 else s1);
          ds = takeWhile is_digit s2
      in if ds = [] then Inl (InvalidArgument ''stoi'')
         else let v = (if neg then - int (nat_of_digits ds) else int (nat_of_digits ds))
              in if v < - 2147483648 \<or> v > 2147483647 then Inl (OutOfRange ''stoi'')
                 else Inr v)"

record InputManager =
  replications :: "Replication list"
  im_basePath :: string

definition InputManager_init :: InputManager where
  "InputManager_init = \<lparr>replications = [], im_basePath = []\<rparr>"

definition InputManager_setBasePath :: "string \<Rightarrow> InputManager \<Rightarrow> InputManager" where
  "InputManager_setBasePath path im =
     (let im1 = im\<lparr>im_basePath := path\<rparr>
      in if im_basePath im1 \<noteq> [] \<and> last (im_basePath im1) \<noteq> CHR ''/''
         then im1\<lparr>im_basePath := im_basePath im1 @ ''/''\<rparr> else im1)"

text \<open>
  What \<open>std::filesystem::directory_iterator\<close> delivers for a path: \<open>None\<close> when the path
  cannot be iterated (\<open>filesystem_error\<close>), else the entries in the order the system
  gives them, each with its file name and whether it is a directory.
\<close>

record dir_entry =
  filename :: string
  is_directory :: bool

type_synonym listing = "string \<Rightarrow> dir_entry list option"

text \<open>\<open>operator<\<close> on \<open>std::string\<close>: lexicographic on the character values.\<close>

fun string_less :: "string \<Rightarrow> string \<Rightarrow> bool" where
  "string_less [] [] = False"
| "string_less [] (d # ds) = True"
| "string_less (c # cs) [] = False"
| "string_less (c # cs) (d # ds) =
     (if (of_char c :: nat) < of_char d then True
      else if (of_char d :: nat) < of_char c then False
      else string_less cs ds)"

text \<open>
  \<open>std::sort\<close> with a comparator. The standard fixes its result only where the comparator
  is a strict weak ordering, and then only up to the order of equivalent elements. The
  model is the insertion sort that the library runs on a range of at most 16 elements: each
  element in turn goes to the front when it compares less than the first one, and
  otherwise moves left past the elements it compares less than. Elements that compare
  equivalent keep their order. (A longer range is partitioned first.)
\<close>

text \<open>
  \<open>__unguarded_linear_insert\<close> on the sorted range before the element, given from its
  right end.
\<close>

fun unguarded_linear_insert :: "('a \<Rightarrow> 'a \<Rightarrow> bool) \<Rightarrow> 'a \<Rightarrow> 'a list \<Rightarrow> 'a list" where
  "unguarded_linear_insert cmp val [] = [val]"
| "unguarded_linear_insert cmp val (next # before) =
     (if cmp val next then next # unguarded_linear_insert cmp val before
      else val # next # before)"

definition insertion_step :: "('a \<Rightarrow> 'a \<Rightarrow> bool) \<Rightarrow> 'a list \<Rightarrow> 'a \<Rightarrow> 'a list" where
  "insertion_step cmp sorted_range i =
     (if sorted_range \<noteq> [] \<and> cmp i (hd sorted_range) then i # sorted_range
      else rev (unguarded_linear_insert cmp i (rev sorted_range)))"

definition std_sort :: "('a \<Rightarrow> 'a \<Rightarrow> bool) \<Rightarrow> 'a list \<Rightarrow> 'a list" where
  "std_sort cmp xs =
     (case xs of [] \<Rightarrow> [] | first # others \<Rightarrow> foldl (insertion_step cmp) [first] others)"

text \<open>The element type and the comparator of \<open>sortReplications\<close>.\<close>

record SortableReplication =
  s_replication :: Replication
  s_number :: int
  s_name :: string

definition sortable_less :: "SortableReplication \<Rightarrow> SortableReplication \<Rightarrow> bool" where
  "sortable_less a b =
     (if s_number a \<noteq> -1 \<and> s_number b \<noteq> -1 then s_number a < s_number b
      else string_less (s_name a) (s_name b))"

definition make_sortable :: "Replication \<Rightarrow> SortableReplication" where
  "make_sortable rep =
     (let nm = Replication_getName rep;
          num = (case stoi (drop (numStart nm) nm) of Inl ex \<Rightarrow> -1 | Inr n \<Rightarrow> n)
      in \<lparr>s_replication = rep, s_number = num, s_name = nm\<rparr>)"

definition sortReplications :: "InputManager \<Rightarrow> InputManager" where
  "sortReplications im =
     (let sortable = map make_sortable (replications im);
          sorted = std_sort sortable_less sortable
      in im\<lparr>replications := map s_replication sorted\<rparr>)"

text \<open>
  The body of the discovery loops: make the replication of a folder, bind its path and
  name, and run the derived \<open>init()\<close> (\<open>rinit\<close>).
\<close>

definition make_replication ::
  "(Replication \<Rightarrow> (exn + unit) \<times> Replication) \<Rightarrow> string \<Rightarrow> string \<Rightarrow> (exn + unit) \<times> Replication" where
  "make_replication rinit path folderName =
     rinit (Replication_setName folderName
              (Replication_setBasePath path (Replication_init folderName)))"

fun load_entries ::
  "(Replication \<Rightarrow> (exn + unit) \<times> Replication) \<Rightarrow> string \<Rightarrow> dir_entry list \<Rightarrow>
   Replication list \<Rightarrow> (exn + unit) \<times> Replication list" where
  "load_entries rinit basePath [] reps = (Inr (), reps)"
| "load_entries rinit basePath (entry # es) reps =
     (if is_directory entry then
        (let folderName = filename entry
         in case make_replication rinit (basePath @ folderName @ ''/'') folderName of
              (Inl ex, rep) \<Rightarrow> (Inl ex, reps)
            | (Inr u, rep) \<Rightarrow> load_entries rinit basePath es (reps @ [rep]))
      else load_entries rinit basePath es reps)"

definition loadReplications ::
  "listing \<Rightarrow> (Replication \<Rightarrow> (exn + unit) \<times> Replication) \<Rightarrow> InputManager \<Rightarrow>
   (exn + unit) \<times> InputManager" where
  "loadReplications ls rinit im =
     (case ls (im_basePath im) of
        None \<Rightarrow> (Inl FilesystemError, im)
      | Some entries \<Rightarrow>
          (case load_entries rinit (im_basePath im) entries (replications im) of
             (Inl ex, reps) \<Rightarrow> (Inl ex, im\<lparr>replications := reps\<rparr>)
           | (Inr u, reps) \<Rightarrow> (Inr (), sortReplications (im\<lparr>replications := reps\<rparr>))))"

text \<open>\<open>isdir p\<close>: \<open>p\<close> exists and is a directory.\<close>

definition loadSpecificReplication ::
  "(string \<Rightarrow> bool) \<Rightarrow> (Replication \<Rightarrow> (exn + unit) \<times> Replication) \<Rightarrow> string \<Rightarrow>
   InputManager \<Rightarrow> (exn + unit) \<times> InputManager" where
  "loadSpecificReplication isdir rinit nm im =
     (let fullPath = im_basePath im @ nm
      in if \<not> isdir fullPath then (Inl (RuntimeError (''Directory not found: '' @ fullPath)), im)
         else case make_replication rinit (fullPath @ ''/'') nm of
                (Inl ex, rep) \<Rightarrow> (Inl ex, im)
              | (Inr u, rep) \<Rightarrow> (Inr (), im\<lparr>replications := replications im @ [rep]\<rparr>))"

text \<open>The loop of \<open>loadBatch\<close>; its handler turns every exception into a runtime error.\<close>

fun batch_entries ::
  "(Replication \<Rightarrow> (exn + unit) \<times> Replication) \<Rightarrow> string \<Rightarrow> int \<Rightarrow> int \<Rightarrow> dir_entry list \<Rightarrow>
   Replication list \<Rightarrow> (exn + unit) \<times> Replication list" where
  "batch_entries rinit basePath start end' [] reps = (Inr (), reps)"
| "batch_entries rinit basePath start end' (entry # es) reps =
     (if is_directory entry then
        (let folderName = filename entry;
             failed = Inl (RuntimeError (''Failed processing file: '' @ folderName))
         in case stoi (drop (numStart folderName) folderName) of
              Inl ex \<Rightarrow> (failed, reps)
            | Inr num \<Rightarrow>
                if num \<ge> start \<and> num \<le> end' then
                  (case make_replication rinit (basePath @ folderName @ ''/'') folderName of
                     (Inl ex, rep) \<Rightarrow> (failed, reps)
                   | (Inr u, rep) \<Rightarrow> batch_entries rinit basePath start end' es (reps @ [rep]))
                else batch_entries rinit basePath start end' es reps)
      else batch_entries rinit basePath start end' es reps)"

definition loadBatch ::
  "listing \<Rightarrow> (Replication \<Rightarrow> (exn + unit) \<times> Replication) \<Rightarrow> int \<Rightarrow> int \<Rightarrow> InputManager \<Rightarrow>
   (exn + unit) \<times> InputManager" where
  "loadBatch ls rinit start end' im =
     (if end' < start
      then (Inl (InvalidArgument ''End value must be greater than or equal to start value''), im)
      else case ls (im_basePath im) of
             None \<Rightarrow> (Inl FilesystemError, im)
           | Some entries \<Rightarrow>
               (case batch_entries rinit (im_basePath im) start end' entries (replications im) of
                  (res, reps) \<Rightarrow> (res, im\<lparr>replications := reps\<rparr>)))"

text \<open>\<open>loadReplications(folders)\<close>: one \<open>loadSpecificReplication\<close> per name, in order.\<close>

fun loadReplications_named ::
  "(string \<Rightarrow> bool) \<Rightarrow> (Replication \<Rightarrow> (exn + unit) \<times> Replication) \<Rightarrow> string list \<Rightarrow>
   InputManager \<Rightarrow> (exn + unit) \<times> InputManager" where
  "loadReplications_named isdir rinit [] im = (Inr (), im)"
| "loadReplications_named isdir rinit (folder # folders) im =
     (case loadSpecificReplication isdir rinit folder im of
        (Inl ex, im1) \<Rightarrow> (Inl ex, im1)
      | (Inr u, im1) \<Rightarrow> loadReplications_named isdir rinit folders im1)"

definition getReplication :: "int \<Rightarrow> InputManager \<Rightarrow> exn + Replication" where
  "getReplication index im =
     (if index < 0 \<or> index \<ge> int (length (replications im)) then Inl (OutOfRange ''Index out of range'')
      else Inr (replications im ! nat index))"

definition clearReplications :: "InputManager \<Rightarrow> InputManager" where
  "clearReplications im = im\<lparr>replications := []\<rparr>"

lemma find_last_not_of_last:
  assumes "s \<noteq> []" and "last s \<notin> set chars"
  shows "find_last_not_of chars s = Some (length s - 1)"
  using assms
proof (induction s)
  case Nil
  then show ?case by simp
next
  case (Cons c cs)
  show ?case
  proof (cases "cs = []")
    case True
    with Cons.prems show ?thesis by simp
  next
    case False
    with Cons have "find_last_not_of chars cs = Some (length cs - 1)" by simp
    with False show ?thesis by (cases cs) simp_all
  qed
qed

text \<open>A folder name without a trailing digit has no numeric suffix for \<open>std::stoi\<close>.\<close>

lemma stoi_no_suffix:
  assumes "folderName = [] \<or> \<not> is_digit (last folderName)"
  shows "stoi (drop (numStart folderName) folderName) = Inl (InvalidArgument ''stoi'')"
proof (cases "folderName = []")
  case True
  then show ?thesis by (simp add: numStart_def stoi_def)
next
  case False
  with assms have "last folderName \<notin> set ''0123456789''"
    by (simp add: is_digit_def)
  from find_last_not_of_last [OF False this] False
  have "drop (numStart folderName) folderName = []"
    by (simp add: numStart_def)
  then show ?thesis by (simp add: stoi_def)
qed

lemma batch_entries_result:
  "fst (batch_entries rinit bp start end' es reps) = Inr ()
   \<or> (\<exists>folder. fst (batch_entries rinit bp start end' es reps) =
         Inl (RuntimeError (''Failed processing file: '' @ folder)))"
proof (induction es arbitrary: reps)
  case Nil
  show ?case by simp
next
  case (Cons entry es)
  show ?case
    using Cons.IH
    by (auto simp add: Let_def split: sum.splits prod.splits)
qed

lemma batch_entries_aborts:
  assumes "\<exists>entry \<in> set es. is_directory entry
             \<and> (filename entry = [] \<or> \<not> is_digit (last (filename entry)))"
  shows "fst (batch_entries rinit bp start end' es reps) \<noteq> Inr ()"
  using assms
proof (induction es arbitrary: reps)
  case Nil
  then show ?case by simp
next
  case (Cons entry es)
  show ?case
  proof (cases "is_directory entry \<and> (filename entry = [] \<or> \<not> is_digit (last (filename entry)))")
    case True
    then have "stoi (drop (numStart (filename entry)) (filename entry)) = Inl (InvalidArgument ''stoi'')"
      by (intro stoi_no_suffix) simp
    with True show ?thesis by (simp add: Let_def)
  next
    case False
    with Cons.prems have "\<exists>entry \<in> set es. is_directory entry
             \<and> (filename entry = [] \<or> \<not> is_digit (last (filename entry)))"
      by auto
    from Cons.IH [OF this] show ?thesis
      by (auto simp add: Let_def split: sum.splits prod.splits)
  qed
qed

section \<open>Sorting by a key\<close>

text \<open>
  Where the comparator agrees with the order of a key on the elements at hand, sorting by
  insertion gives a list sorted by that key, and only one arrangement is sorted.
\<close>

lemma mset_unguarded_linear_insert:
  "mset (unguarded_linear_insert cmp val r) = add_mset val (mset r)"
  by (induction r) simp_all

lemma mset_insertion_step: "mset (insertion_step cmp sorted_range i) = add_mset i (mset sorted_range)"
  by (simp add: insertion_step_def mset_unguarded_linear_insert)

lemma mset_foldl_insertion_step:
  "mset (foldl (insertion_step cmp) sorted_range xs) = mset sorted_range + mset xs"
  by (induction xs arbitrary: sorted_range) (simp_all add: mset_insertion_step)

lemma mset_std_sort: "mset (std_sort cmp xs) = mset xs"
  by (cases xs) (simp_all add: std_sort_def mset_foldl_insertion_step)

lemma sorted_unguarded_linear_insert:
  assumes "\<forall>y \<in> set r. cmp val y \<longleftrightarrow> k val < (k y :: nat)" and "sorted (map k (rev r))"
  shows "sorted (map k (rev (unguarded_linear_insert cmp val r)))"
  using assms
proof (induction r)
  case Nil
  show ?case by simp
next
  case (Cons y ys)
  from Cons.prems(2) have s: "sorted (map k (rev ys))" and le: "\<forall>z \<in> set ys. k z \<le> k y"
    by (auto simp add: sorted_append)
  show ?case
  proof (cases "cmp val y")
    case True
    with Cons.prems(1) have "k val < k y" by simp
    moreover have "sorted (map k (rev (unguarded_linear_insert cmp val ys)))"
      using Cons.prems(1) s by (intro Cons.IH) simp_all
    moreover have "set (unguarded_linear_insert cmp val ys) = insert val (set ys)"
      by (metis mset_unguarded_linear_insert set_mset_add_mset_insert set_mset_mset)
    ultimately show ?thesis
      using True le by (auto simp add: sorted_append)
  next
    case False
    with Cons.prems(1) have "k y \<le> k val" by auto
    with False Cons.prems(2) le show ?thesis
      by (auto simp add: sorted_append)
  qed
qed

lemma sorted_insertion_step:
  assumes "\<forall>y \<in> set sorted_range. cmp i y \<longleftrightarrow> k i < (k y :: nat)" and "sorted (map k sorted_range)"
  shows "sorted (map k (insertion_step cmp sorted_range i))"
proof (cases "sorted_range \<noteq> [] \<and> cmp i (hd sorted_range)")
  case True
  then obtain y ys where r: "sorted_range = y # ys" by (cases sorted_range) auto
  with True assms(1) have "k i < k y" by simp
  with r assms(2) True show ?thesis
    by (auto simp add: insertion_step_def)
next
  case False
  have "sorted (map k (rev (unguarded_linear_insert cmp i (rev sorted_range))))"
    using assms by (intro sorted_unguarded_linear_insert) simp_all
  with False show ?thesis
    by (auto simp add: insertion_step_def)
qed

lemma sorted_foldl_insertion_step:
  assumes "\<forall>x \<in> set sorted_range \<union> set xs. \<forall>y \<in> set sorted_range \<union> set xs. cmp x y \<longleftrightarrow> k x < (k y :: nat)"
    and "sorted (map k sorted_range)"
  shows "sorted (map k (foldl (insertion_step cmp) sorted_range xs))"
  using assms
proof (induction xs arbitrary: sorted_range)
  case Nil
  then show ?case by simp
next
  case (Cons x xs)
  have st: "set (insertion_step cmp sorted_range x) = insert x (set sorted_range)"
    by (metis mset_insertion_step set_mset_add_mset_insert set_mset_mset)
  have "sorted (map k (insertion_step cmp sorted_range x))"
    using Cons.prems by (intro sorted_insertion_step) simp_all
  moreover have "\<forall>a \<in> set (insertion_step cmp sorted_range x) \<union> set xs.
      \<forall>b \<in> set (insertion_step cmp sorted_range x) \<union> set xs. cmp a b \<longleftrightarrow> k a < k b"
    using Cons.prems(1) by (simp add: st)
  ultimately show ?case
    using Cons.IH [of "insertion_step cmp sorted_range x"] by simp
qed

lemma sorted_std_sort:
  assumes "\<forall>x \<in> set xs. \<forall>y \<in> set xs. cmp x y \<longleftrightarrow> k x < (k y :: nat)"
  shows "sorted (map k (std_sort cmp xs))"
proof (cases xs)
  case Nil
  then show ?thesis by (simp add: std_sort_def)
next
  case (Cons first others)
  have "sorted (map k (foldl (insertion_step cmp) [first] others))"
    using assms Cons by (intro sorted_foldl_insertion_step) simp_all
  with Cons show ?thesis by (simp add: std_sort_def)
qed

text \<open>Elements that the comparator does not tell apart keep their order.\<close>

lemma std_sort_keeps_equivalent: "std_sort (\<lambda>a b. False) xs = xs"
proof -
  have u: "unguarded_linear_insert (\<lambda>a b. False) x r = x # r" for x :: 'a and r
    by (cases r) simp_all
  have "foldl (insertion_step (\<lambda>a b. False)) sorted_range ys = sorted_range @ ys" for sorted_range ys :: "'a list"
    by (induction ys arbitrary: sorted_range) (simp_all add: insertion_step_def u)
  then show ?thesis
    by (cases xs) (simp_all add: std_sort_def)
qed

lemma sorted_key_unique:
  assumes "mset ys = mset xs" and "distinct xs" and "inj_on k (set xs)"
    and "sorted (map k xs)" and "sorted (map (k :: 'a \<Rightarrow> nat) ys)"
  shows "ys = xs"
proof -
  have s: "set ys = set xs" using assms(1) by (metis set_mset_mset)
  have d: "distinct ys" using assms(1,2) by (metis distinct_count_atmost_1 mset_eq_setD count_mset_0_iff)
  have "map k ys = map k xs"
    using assms s d
    by (intro sorted_distinct_set_unique) (simp_all add: distinct_map)
  then show ?thesis
    using assms(3) s by (simp add: inj_on_map_eq_map)
qed

section \<open>Discovery over \<open>Rep2\<close>, \<open>Rep10\<close>, \<open>Rep1\<close>, \<open>Foo\<close>\<close>

text \<open>The replication the casino manager makes of a folder.\<close>

definition casino_replication :: "string \<Rightarrow> string \<Rightarrow> Replication" where
  "casino_replication basePath folderName =
     snd (make_replication CasinoBinReplication_init (basePath @ folderName @ ''/'') folderName)"

lemma make_replication_casino:
  "make_replication CasinoBinReplication_init (basePath @ folderName @ ''/'') folderName =
     (Inr (), casino_replication basePath folderName)"
  by (simp add: casino_replication_def make_replication_def CasinoBinReplication_init_def Let_def)

lemma rep_name_casino [simp]: "rep_name (casino_replication basePath folderName) = folderName"
  by (simp add: casino_replication_def make_replication_def CasinoBinReplication_init_def Let_def
      registerReader_def Replication_setName_def)

lemma load_entries_casino:
  "load_entries CasinoBinReplication_init bp es reps =
     (Inr (), reps @ map (casino_replication bp) (map filename (filter is_directory es)))"
  by (induction es arbitrary: reps) (simp_all add: make_replication_casino Let_def)

text \<open>The position of the four names in the order of the comparator.\<close>

definition rank :: "string \<Rightarrow> nat" where
  "rank nm =
     (if nm = ''Foo'' then 0 else if nm = ''Rep1'' then 1 else if nm = ''Rep2'' then 2
      else if nm = ''Rep10'' then 3 else 4)"

lemma stoi_four:
  "stoi (drop (numStart ''Rep1'') ''Rep1'') = Inr 1"
  "stoi (drop (numStart ''Rep2'') ''Rep2'') = Inr 2"
  "stoi (drop (numStart ''Rep10'') ''Rep10'') = Inr 10"
  "stoi (drop (numStart ''Foo'') ''Foo'') = Inl (InvalidArgument ''stoi'')"
  by (simp_all add: numStart_def stoi_def is_space_def is_digit_def nat_of_digits_def digit_val_def)

lemma make_sortable_four:
  "make_sortable (casino_replication bp ''Rep1'') =
     \<lparr>s_replication = casino_replication bp ''Rep1'', s_number = 1, s_name = ''Rep1''\<rparr>"
  "make_sortable (casino_replication bp ''Rep2'') =
     \<lparr>s_replication = casino_replication bp ''Rep2'', s_number = 2, s_name = ''Rep2''\<rparr>"
  "make_sortable (casino_replication bp ''Rep10'') =
     \<lparr>s_replication = casino_replication bp ''Rep10'', s_number = 10, s_name = ''Rep10''\<rparr>"
  "make_sortable (casino_replication bp ''Foo'') =
     \<lparr>s_replication = casino_replication bp ''Foo'', s_number = -1, s_name = ''Foo''\<rparr>"
  by (simp_all add: make_sortable_def Replication_getName_def stoi_four Let_def)

lemma four_names:
  assumes "nm \<in> set [''Rep2'', ''Rep10'', ''Rep1'', ''Foo'']"
  shows "nm = ''Rep2'' \<or> nm = ''Rep10'' \<or> nm = ''Rep1'' \<or> nm = ''Foo''"
  using assms by auto

lemma sortable_less_rank:
  assumes "a \<in> set [''Rep2'', ''Rep10'', ''Rep1'', ''Foo'']"
    and "b \<in> set [''Rep2'', ''Rep10'', ''Rep1'', ''Foo'']"
  shows "sortable_less (make_sortable (casino_replication bp a))
           (make_sortable (casino_replication bp b)) \<longleftrightarrow> rank a < rank b"
  using four_names [OF assms(1)] four_names [OF assms(2)]
  by (elim disjE) (simp_all add: make_sortable_four sortable_less_def rank_def)


lemma rank_inj:
  assumes "a \<in> set [''Rep2'', ''Rep10'', ''Rep1'', ''Foo'']"
    and "b \<in> set [''Rep2'', ''Rep10'', ''Rep1'', ''Foo'']" and "rank a = rank b"
  shows "a = b"
  using four_names [OF assms(1)] four_names [OF assms(2)] assms(3)
  by (elim disjE) (simp_all add: rank_def)

lemma s_name_make_sortable [simp]:
  "s_name (make_sortable (casino_replication bp nm)) = nm"
  by (simp add: make_sortable_def Let_def Replication_getName_def)

text \<open>
  Whatever order the four names come in, and whatever list sorted by the comparator a
  sort returns, the names end up in one order: \<open>Foo\<close> first, since \<open>F\<close> is less than
  \<open>R\<close>, then the three numbered names by number.
\<close>

lemma sorted_four:
  assumes m: "mset names = mset [''Rep2'', ''Rep10'', ''Rep1'', ''Foo'']"
    and ys: "mset ys = mset (map (\<lambda>nm. make_sortable (casino_replication bp nm)) names)"
    and sorted: "sorted_wrt (\<lambda>a b. \<not> sortable_less b a) ys"
  shows "ys = map (\<lambda>nm. make_sortable (casino_replication bp nm))
                [''Foo'', ''Rep1'', ''Rep2'', ''Rep10'']"
proof -
  let ?f = "\<lambda>nm. make_sortable (casino_replication bp nm)"
  let ?N = "[''Rep2'', ''Rep10'', ''Rep1'', ''Foo'']"
  let ?T = "[''Foo'', ''Rep1'', ''Rep2'', ''Rep10'']"
  let ?k = "\<lambda>s. rank (s_name s)"
  have mT: "mset ys = mset (map ?f ?T)"
  proof -
    have "mset (map ?f names) = image_mset ?f (mset names)" by simp
    also have "\<dots> = image_mset ?f (mset ?N)" using m by simp
    also have "\<dots> = mset (map ?f ?T)" by (simp add: add_mset_commute)
    finally show ?thesis using ys by simp
  qed
  then have sy: "set ys = set (map ?f ?T)" by (metis set_mset_mset)
  have el: "\<exists>nm \<in> set ?N. y = ?f nm" if "y \<in> set ys" for y
    using that sy by auto
  have key: "\<not> sortable_less b a \<longleftrightarrow> ?k a \<le> ?k b" if "a \<in> set ys" and "b \<in> set ys" for a b
  proof -
    from el [OF that(1)] obtain na where na: "na \<in> set ?N" "a = ?f na" by blast
    from el [OF that(2)] obtain nb where nb: "nb \<in> set ?N" "b = ?f nb" by blast
    from sortable_less_rank [OF nb(1) na(1), of bp] na nb show ?thesis
      by (simp add: not_less)
  qed
  have "sorted_wrt (\<lambda>a b. ?k a \<le> ?k b) ys"
  proof (rule sorted_wrt_mono_rel [OF _ sorted])
    fix a b
    assume "a \<in> set ys" and "b \<in> set ys" and "\<not> sortable_less b a"
    then show "?k a \<le> ?k b" using key by blast
  qed
  then have sk: "sorted (map ?k ys)"
    by (simp add: sorted_map)
  have inj: "inj_on ?k (set (map ?f ?T))"
  proof (rule inj_onI)
    fix a b
    assume a: "a \<in> set (map ?f ?T)" and b: "b \<in> set (map ?f ?T)" and e: "?k a = ?k b"
    from a obtain na where na: "na \<in> set ?N" "a = ?f na" by auto
    from b obtain nb where nb: "nb \<in> set ?N" "b = ?f nb" by auto
    from e na nb have "rank na = rank nb" by simp
    from rank_inj [OF na(1) nb(1) this] na nb show "a = b" by simp
  qed
  have dist: "distinct (map ?f ?T)"
    by (simp add: make_sortable_four)
  have sT: "sorted (map ?k (map ?f ?T))"
    by (simp add: rank_def)
  show ?thesis
    using mT dist inj sT sk by (rule sorted_key_unique)
qed

lemma sortReplications_four:
  assumes "mset names = mset [''Rep2'', ''Rep10'', ''Rep1'', ''Foo'']"
    and "replications im = map (casino_replication bp) names"
  shows "map rep_name (replications (sortReplications im)) = [''Foo'', ''Rep1'', ''Rep2'', ''Rep10'']"
proof -
  let ?f = "\<lambda>nm. make_sortable (casino_replication bp nm)"
  let ?xs = "map ?f names"
  have mem: "nm \<in> set [''Rep2'', ''Rep10'', ''Rep1'', ''Foo'']" if "nm \<in> set names" for nm
    using that assms(1) by (metis set_mset_mset)
  have agree: "\<forall>x \<in> set ?xs. \<forall>y \<in> set ?xs.
      sortable_less x y \<longleftrightarrow> rank (s_name x) < rank (s_name y)"
    using sortable_less_rank [of _ _ bp] mem by auto
  have "sorted (map (\<lambda>s. rank (s_name s)) (std_sort sortable_less ?xs))"
    using agree by (rule sorted_std_sort)
  then have "sorted_wrt (\<lambda>a b. rank (s_name a) \<le> rank (s_name b)) (std_sort sortable_less ?xs)"
    by (simp add: sorted_map)
  moreover have "set (std_sort sortable_less ?xs) = set ?xs"
    by (metis mset_std_sort set_mset_mset)
  ultimately have "sorted_wrt (\<lambda>a b. \<not> sortable_less b a) (std_sort sortable_less ?xs)"
  proof -
    assume sw: "sorted_wrt (\<lambda>a b. rank (s_name a) \<le> rank (s_name b)) (std_sort sortable_less ?xs)"
      and st: "set (std_sort sortable_less ?xs) = set ?xs"
    show ?thesis
    proof (rule sorted_wrt_mono_rel [OF _ sw])
      fix a b
      assume "a \<in> set (std_sort sortable_less ?xs)" and "b \<in> set (std_sort sortable_less ?xs)"
        and le: "rank (s_name a) \<le> rank (s_name b)"
      then have "a \<in> set ?xs" and "b \<in> set ?xs" using st by simp_all
      with agree have "sortable_less b a \<longleftrightarrow> rank (s_name b) < rank (s_name a)" by blast
      with le show "\<not> sortable_less b a" by simp
    qed
  qed
  with assms(1) have "std_sort sortable_less ?xs = map ?f [''Foo'', ''Rep1'', ''Rep2'', ''Rep10'']"
    using sorted_four [where names=names and bp=bp and ys="std_sort sortable_less ?xs"]
    by (simp add: mset_std_sort)
  then show ?thesis
    using assms(2) by (simp add: sortReplications_def Let_def make_sortable_four comp_def)
qed

lemma loadReplications_four:
  assumes "ls (im_basePath im) = Some es"
    and "mset (map filename (filter is_directory es)) = mset [''Rep2'', ''Rep10'', ''Rep1'', ''Foo'']"
    and "replications im = []"
  shows "fst (loadReplications ls CasinoBinReplication_init im) = Inr ()
       \<and> map rep_name (replications (snd (loadReplications ls CasinoBinReplication_init im))) =
           [''Foo'', ''Rep1'', ''Rep2'', ''Rep10'']"
proof -
  let ?names = "map filename (filter is_directory es)"
  let ?im = "im\<lparr>replications := map (casino_replication (im_basePath im)) ?names\<rparr>"
  have l: "loadReplications ls CasinoBinReplication_init im = (Inr (), sortReplications ?im)"
    using assms(1,3) by (simp add: loadReplications_def load_entries_casino)
  have "map rep_name (replications (sortReplications ?im)) = [''Foo'', ''Rep1'', ''Rep2'', ''Rep10'']"
    using assms(2) by (intro sortReplications_four [where names="?names" and bp="im_basePath im"]) simp_all
  with l show ?thesis by simp
qed

section \<open>Presenters\<close>

text \<open>
  The views a \<open>PresenterManager\<close> creates. \<open>'f\<close> is the type of \<open>float\<close>; the sizes and
  scales the code sets are whole numbers. A view is created empty, registered with the
  manager and then filled through the shared pointer: the model registers it as filled.
\<close>

record 'f GraphPresenter =
  g_values :: "'f list"
  g_labels :: "string list"
  g_graphSize :: "int \<times> int"
  g_title :: string
  g_scale :: "int \<times> int"

datatype 'f Presenter =
    TextPresenter string
  | TablePresenter "string list list"
  | GraphPresenter "'f GraphPresenter"

record 'f PresenterManager =
  presenters :: "'f Presenter list"

definition GraphPresenter_init :: "'f GraphPresenter" where
  "GraphPresenter_init =
     \<lparr>g_values = [], g_labels = [], g_graphSize = (0, 400), g_title = ''Data'', g_scale = (0, 100)\<rparr>"

text \<open>
  What a call returns: normally, by an exception, or not at all in any defined way (a
  member function called through a null pointer).
\<close>

datatype 'a outcome = Returns 'a | Raises exn | Undefined

section \<open>\<open>Statistics\<close>\<close>

text \<open>\<open>Statistics<IM>::setupPresenters\<close>, the base implementation.\<close>

definition Statistics_setupPresenters ::
  "'f PresenterManager option \<Rightarrow> 'f PresenterManager outcome" where
  "Statistics_setupPresenters manager =
     (case manager of
        None \<Rightarrow> Raises (InvalidArgument ''PresenterManager cannot be nullptr'')
      | Some m \<Rightarrow> Returns m)"

record CasinoBinStatistics =
  armaVecs :: "double list list"
  inputManager :: InputManager
  st_basePath :: string

definition CasinoBinStatistics_init :: CasinoBinStatistics where
  "CasinoBinStatistics_init =
     \<lparr>armaVecs = replicate 5 [], inputManager = InputManager_init, st_basePath = []\<rparr>"

definition Statistics_setBasePath :: "string \<Rightarrow> CasinoBinStatistics \<Rightarrow> CasinoBinStatistics" where
  "Statistics_setBasePath path st =
     st\<lparr>st_basePath := path, inputManager := InputManager_setBasePath path (inputManager st)\<rparr>"

definition loadFolders ::
  "(string \<Rightarrow> bool) \<Rightarrow> string list \<Rightarrow> CasinoBinStatistics \<Rightarrow> (exn + unit) \<times> CasinoBinStatistics" where
  "loadFolders isdir folderNames st =
     (case loadReplications_named isdir CasinoBinReplication_init folderNames (inputManager st) of
        (res, im) \<Rightarrow> (res, st\<lparr>inputManager := im\<rparr>))"

text \<open>
  \<open>getReplication\<close> and \<open>getReader\<close> take an \<open>int\<close>, and \<open>processReplication\<close>
  passes them a \<open>size_t\<close>: the conversion keeps the low 32 bits, read as two's complement.
\<close>

definition size_t_to_int :: "nat \<Rightarrow> int" where
  "size_t_to_int n = sint (word_of_nat n :: 32 word)"

text \<open>
  The loop of \<open>processReplication\<close> over the readers from index \<open>i\<close> on: load, append to
  the channel's vector when the channel exists, flush. A \<open>load()\<close> that raises ends it.
  The readers are shared objects, so what \<open>load()\<close> and \<open>flush()\<close> do to them stays in
  the replication.
\<close>

function process_readers ::
  "endianness \<Rightarrow> filesystem \<Rightarrow> nat \<Rightarrow> Replication \<Rightarrow> double list list \<Rightarrow>
   (exn + unit) \<times> Replication \<times> double list list" where
  "process_readers e fs i rep vecs =
     (if i < getReaderCount rep then
        (case getReader (size_t_to_int i) rep of
           Inl ex \<Rightarrow> (Inl ex, rep, vecs)
         | Inr reader \<Rightarrow>
             (case Reader_load e fs reader of
                (Inl ex, r1, cerr) \<Rightarrow>
                  (Inl ex, rep\<lparr>readers := (readers rep)[nat (size_t_to_int i) := r1]\<rparr>, vecs)
              | (Inr u, r1, cerr) \<Rightarrow>
                  (let convertedData = Reader_getData r1;
                       vecs1 = (if i < length vecs then vecs[i := vecs ! i @ convertedData]
                                else vecs);
                       rep1 = rep\<lparr>readers :=
                                (readers rep)[nat (size_t_to_int i) := Reader_flush r1]\<rparr>
                   in process_readers e fs (i + 1) rep1 vecs1)))
      else (Inr (), rep, vecs))"
  by pat_completeness auto
termination
  by (relation "measure (\<lambda>(e, fs, i, rep, vecs). getReaderCount rep - i)")
     (auto simp add: getReaderCount_def)

declare process_readers.simps [simp del]

lemma size_t_to_int_wraps: "size_t_to_int 4294967296 = 0" and "size_t_to_int 2147483648 < 0"
  by (simp_all add: size_t_to_int_def)

definition processReplication ::
  "endianness \<Rightarrow> filesystem \<Rightarrow> nat \<Rightarrow> CasinoBinStatistics \<Rightarrow> (exn + unit) \<times> CasinoBinStatistics" where
  "processReplication e fs index st =
     (case getReplication (size_t_to_int index) (inputManager st) of
        Inl ex \<Rightarrow> (Inl ex, st)
      | Inr rep \<Rightarrow>
          (case process_readers e fs 0 rep (armaVecs st) of
             (res, rep', vecs) \<Rightarrow>
               (res, st\<lparr>armaVecs := vecs,
                        inputManager := (inputManager st)\<lparr>replications :=
                          (replications (inputManager st))
                            [nat (size_t_to_int index) := rep']\<rparr>\<rparr>)))"

fun process_indices ::
  "endianness \<Rightarrow> filesystem \<Rightarrow> nat list \<Rightarrow> CasinoBinStatistics \<Rightarrow> (exn + unit) \<times> CasinoBinStatistics" where
  "process_indices e fs [] st = (Inr (), st)"
| "process_indices e fs (i # is) st =
     (case processReplication e fs i st of
        (Inl ex, st1) \<Rightarrow> (Inl ex, st1)
      | (Inr u, st1) \<Rightarrow> process_indices e fs is st1)"

definition processAllReplications ::
  "endianness \<Rightarrow> filesystem \<Rightarrow> CasinoBinStatistics \<Rightarrow> (exn + unit) \<times> CasinoBinStatistics" where
  "processAllReplications e fs st =
     process_indices e fs [0..<length (replications (inputManager st))] st"

definition clearData :: "CasinoBinStatistics \<Rightarrow> CasinoBinStatistics" where
  "clearData st =
     st\<lparr>armaVecs := map (\<lambda>vec. []) (armaVecs st),
        inputManager := clearReplications (inputManager st)\<rparr>"

text \<open>
  \<open>getMean\<close>, the same in \<open>CasinoBinStatistics\<close> and \<open>CasinoStatistics\<close>, on the vector of
  aggregate vectors. \<open>arma_mean\<close> is Armadillo's \<open>arma::mean\<close>, the arithmetic mean in
  \<open>double\<close> arithmetic; the double 0.0 is the word 0.
\<close>

definition getMean :: "(double list \<Rightarrow> double) \<Rightarrow> double list list \<Rightarrow> nat \<Rightarrow> double" where
  "getMean arma_mean vecs index =
     (if index \<ge> length vecs \<or> vecs ! index = [] then 0 else arma_mean (vecs ! index))"

definition CasinoBinStatistics_getMean ::
  "(double list \<Rightarrow> double) \<Rightarrow> CasinoBinStatistics \<Rightarrow> nat \<Rightarrow> double" where
  "CasinoBinStatistics_getMean arma_mean st index = getMean arma_mean (armaVecs st) index"

text \<open>
  The views both casino statistics make of the five means. \<open>pct\<close> prints a mean times 100
  with two decimals, \<open>pctf\<close> converts a mean times 100 to \<open>float\<close>.
\<close>

definition casino_text :: "(nat \<Rightarrow> double) \<Rightarrow> (double \<Rightarrow> string) \<Rightarrow> string" where
  "casino_text mean pct =
     ''Ruleta AR: '' @ pct (mean 0) @ [CHR ''%'', CHR 0x0A]
     @ ''Ruleta ALT: '' @ pct (mean 1) @ [CHR ''%'', CHR 0x0A]
     @ ''Automaty: '' @ pct (mean 2) @ [CHR ''%'', CHR 0x0A]
     @ ''Blackjack con: '' @ pct (mean 3) @ [CHR ''%'', CHR 0x0A]
     @ ''Blackjack agg: '' @ pct (mean 4) @ ''%''"

definition casino_rows :: "(nat \<Rightarrow> double) \<Rightarrow> (double \<Rightarrow> string) \<Rightarrow> string list list" where
  "casino_rows mean pct =
     [[''Game'', ''Win Rate''],
      [''Ruleta AR'', pct (mean 0) @ ''%''],
      [''Ruleta ALT'', pct (mean 1) @ ''%''],
      [''Automaty'', pct (mean 2) @ ''%''],
      [''Blackjack con'', pct (mean 3) @ ''%''],
      [''Blackjack agg'', pct (mean 4) @ ''%'']]"

definition casino_labels :: "string list" where
  "casino_labels = [''Ruleta AR'', ''Ruleta ALT'', ''Automaty'', ''Blackjack con'', ''Blackjack agg'']"

text \<open>
  \<open>CasinoBinStatistics::setupPresenters\<close>: its first statement calls
  \<open>manager->createTextPresenter()\<close>.
\<close>

definition CasinoBinStatistics_setupPresenters ::
  "(double list \<Rightarrow> double) \<Rightarrow> (double \<Rightarrow> string) \<Rightarrow> (double \<Rightarrow> 'f) \<Rightarrow>
   'f PresenterManager option \<Rightarrow> CasinoBinStatistics \<Rightarrow> 'f PresenterManager outcome" where
  "CasinoBinStatistics_setupPresenters arma_mean pct pctf manager st =
     (case manager of
        None \<Rightarrow> Undefined
      | Some m \<Rightarrow>
          (let mean = CasinoBinStatistics_getMean arma_mean st;
               textPresenter = TextPresenter (casino_text mean pct);
               tablePresenter = TablePresenter (casino_rows mean pct);
               graphPresenter = GraphPresenter
                 (GraphPresenter_init\<lparr>g_values := map (\<lambda>i. pctf (mean i)) [0, 1, 2, 3, 4],
                    g_labels := casino_labels, g_title := ''Casino Game Win Rates'',
                    g_graphSize := (0, 300), g_scale := (0, 100)\<rparr>)
           in Returns (m\<lparr>presenters := presenters m @ [textPresenter, tablePresenter, graphPresenter]\<rparr>)))"

text \<open>\<open>CasinoStatistics\<close>, the text variant: its aggregate vectors and the same two methods.\<close>

record CasinoStatistics =
  cs_armaVecs :: "double list list"

definition CasinoStatistics_init :: CasinoStatistics where
  "CasinoStatistics_init = \<lparr>cs_armaVecs = replicate 5 []\<rparr>"

definition CasinoStatistics_getMean ::
  "(double list \<Rightarrow> double) \<Rightarrow> CasinoStatistics \<Rightarrow> nat \<Rightarrow> double" where
  "CasinoStatistics_getMean arma_mean st index = getMean arma_mean (cs_armaVecs st) index"

definition CasinoStatistics_setupPresenters ::
  "(double list \<Rightarrow> double) \<Rightarrow> (double \<Rightarrow> string) \<Rightarrow> (double \<Rightarrow> 'f) \<Rightarrow>
   'f PresenterManager option \<Rightarrow> CasinoStatistics \<Rightarrow> 'f PresenterManager outcome" where
  "CasinoStatistics_setupPresenters arma_mean pct pctf manager st =
     (case manager of
        None \<Rightarrow> Undefined
      | Some m \<Rightarrow>
          (let mean = CasinoStatistics_getMean arma_mean st;
               textPresenter = TextPresenter (casino_text mean pct);
               tablePresenter = TablePresenter (casino_rows mean pct);
               graphPresenter = GraphPresenter
                 (GraphPresenter_init\<lparr>g_values := map (\<lambda>i. pctf (mean i)) [0, 1, 2, 3, 4],
                    g_labels := casino_labels, g_title := ''Casino Game Win Rates''\<rparr>)
           in Returns (m\<lparr>presenters := presenters m @ [textPresenter, tablePresenter, graphPresenter]\<rparr>)))"

text \<open>
  The calls a client can make on a \<open>CasinoBinStatistics\<close>, each with the directories and
  files it meets; a call that raises leaves the state it had reached.
\<close>

datatype stat_call =
    SetBasePath string
  | LoadFolders "string \<Rightarrow> bool" "string list"
  | ProcessAllReplications filesystem
  | ProcessReplication filesystem nat
  | ClearData

fun call :: "endianness \<Rightarrow> stat_call \<Rightarrow> CasinoBinStatistics \<Rightarrow> CasinoBinStatistics" where
  "call e (SetBasePath path) st = Statistics_setBasePath path st"
| "call e (LoadFolders isdir folderNames) st = snd (loadFolders isdir folderNames st)"
| "call e (ProcessAllReplications fs) st = snd (processAllReplications e fs st)"
| "call e (ProcessReplication fs index) st = snd (processReplication e fs index st)"
| "call e ClearData st = clearData st"

definition calls :: "endianness \<Rightarrow> stat_call list \<Rightarrow> CasinoBinStatistics \<Rightarrow> CasinoBinStatistics" where
  "calls e cs st = foldl (\<lambda>s c. call e c s) st cs"

lemma process_readers_length:
  "length (snd (snd (process_readers e fs i rep vecs))) = length vecs"
proof (induction e fs i rep vecs rule: process_readers.induct)
  case (1 e fs i rep vecs)
  show ?case
  proof (cases "i < getReaderCount rep")
    case False
    then show ?thesis by (subst process_readers.simps) simp
  next
    case True
    show ?thesis
    proof (cases "getReader (size_t_to_int i) rep")
      case (Inl ex)
      with True show ?thesis by (subst process_readers.simps) simp
    next
      case (Inr reader)
      obtain res r1 cerr where l: "Reader_load e fs reader = (res, r1, cerr)"
        by (cases "Reader_load e fs reader") auto
      show ?thesis
      proof (cases res)
        case (Inl ex)
        with True Inr l show ?thesis by (subst process_readers.simps) simp
      next
        case u: (Inr u)
        let ?vecs = "if i < length vecs then vecs[i := vecs ! i @ Reader_getData r1] else vecs"
        let ?rep = "rep\<lparr>readers := (readers rep)[nat (size_t_to_int i) := Reader_flush r1]\<rparr>"
        have "length (snd (snd (process_readers e fs (i + 1) ?rep ?vecs))) = length ?vecs"
          using True Inr l u by (intro "1.IH") auto
        then have "length (snd (snd (process_readers e fs (i + 1) ?rep ?vecs))) = length vecs"
          by (simp split: if_splits)
        with True Inr l u show ?thesis
          by (subst process_readers.simps) (simp add: Let_def)
      qed
    qed
  qed
qed

lemma processReplication_length:
  "length (armaVecs (snd (processReplication e fs index st))) = length (armaVecs st)"
proof (cases "getReplication (size_t_to_int index) (inputManager st)")
  case (Inl ex)
  then show ?thesis by (simp add: processReplication_def)
next
  case (Inr rep)
  obtain res rep' vecs where p: "process_readers e fs 0 rep (armaVecs st) = (res, rep', vecs)"
    by (cases "process_readers e fs 0 rep (armaVecs st)") auto
  with process_readers_length [of e fs 0 rep "armaVecs st"]
  have "length vecs = length (armaVecs st)" by simp
  with Inr p show ?thesis by (simp add: processReplication_def)
qed

lemma process_indices_length:
  "length (armaVecs (snd (process_indices e fs ixs st))) = length (armaVecs st)"
proof (induction ixs arbitrary: st)
  case Nil
  show ?case by simp
next
  case (Cons i ixs)
  obtain res st1 where p: "processReplication e fs i st = (res, st1)"
    by (cases "processReplication e fs i st")
  with processReplication_length [of e fs i st] have "length (armaVecs st1) = length (armaVecs st)"
    by simp
  with p Cons [of st1] show ?case by (cases res) simp_all
qed

lemma call_length: "length (armaVecs (call e c st)) = length (armaVecs st)"
proof (cases c)
  case (LoadFolders isdir names)
  then show ?thesis by (simp add: loadFolders_def split: prod.splits)
qed (simp_all add: Statistics_setBasePath_def processAllReplications_def
      process_indices_length processReplication_length clearData_def)

lemma calls_length: "length (armaVecs (calls e cs st)) = length (armaVecs st)"
  unfolding calls_def by (induction cs arbitrary: st) (simp_all add: call_length)

section \<open>What a load delivers, said on the bytes\<close>

text \<open>
  The values a load gets out of the bytes of a file, without the stream: at four length
  bytes \<open>read()\<close> delivers a block of that length, the payload bytes that are there
  followed by zeros where the file ends early; a block that is not empty and that the
  converter accepts is a unit, and the next one starts behind the payload. Anything else
  ends the sequence: fewer than four bytes, a length of zero, a block the converter
  refuses.
\<close>

function decoded_units :: "endianness \<Rightarrow> byte list \<Rightarrow> double list" where
  "decoded_units e (b0 # b1 # b2 # b3 # payload) =
     (let n = unat (length_field b0 b1 b2 b3);
          block = take n payload @ replicate (n - length payload) 0
      in if block = [] then []
         else case CasinoBinConverter_convert_bytes e block of
                Inl ex \<Rightarrow> []
              | Inr v \<Rightarrow> v # decoded_units e (drop n payload))"
| "decoded_units e [] = []"
| "decoded_units e [b0] = []"
| "decoded_units e [b0, b1] = []"
| "decoded_units e [b0, b1, b2] = []"
  by pat_completeness auto
termination
  by (relation "measure (\<lambda>(e, bs). length bs)") auto

text \<open>The same for a transport in any state: only a good, open one delivers anything.\<close>

definition stream_units :: "endianness \<Rightarrow> ifstream \<Rightarrow> double list" where
  "stream_units e s = (if in_is_open s \<and> in_good s then decoded_units e (rest s) else [])"

lemma decoded_units_short: "length bs < 4 \<Longrightarrow> decoded_units e bs = []"
  by (cases bs; cases "tl bs"; cases "tl (tl bs)"; cases "tl (tl (tl bs))") auto

lemma read_unit_opened:
  "read_unit e (opened (b0 # b1 # b2 # b3 # payload)) =
     (let n = unat (length_field b0 b1 b2 b3);
          block = take n payload @ replicate (n - length payload) 0;
          s' = (if n \<le> length payload then opened (drop n payload)
                else (opened [])\<lparr>eofbit := True, failbit := True\<rparr>)
      in if block = [] then (Inl (RuntimeError ''End of file reached''), s')
         else case CasinoBinConverter_convert_bytes e block of
                Inl ex \<Rightarrow> (Inl ex, s')
              | Inr v \<Rightarrow> (Inr v, s'))"
  by (simp add: read_unit_def BinFileIn_read_frame Let_def)

lemma Reader_read_not_ready:
  assumes "r_isOpen r" and "\<not> (in_is_open (r_file r) \<and> in_good (r_file r))"
  shows "\<exists>msg r1. Reader_read e fs r = (Inl (RuntimeError msg), r1)
           \<and> r_data r1 = r_data r \<and> r_path r1 = r_path r \<and> r_isOpen r1"
proof (cases "in_fail (r_file r)")
  case True
  with assms(1) show ?thesis
    by (simp add: Reader_read_def read_unit_def BinFileIn_read_def)
next
  case False
  from read_size_not_ready [OF False assms(2)]
  obtain s1 where "read_size 0 0 (r_file r) = (EarlyReturn [], s1)"
    by (cases "read_size 0 0 (r_file r)") auto
  with False assms(1) show ?thesis
    by (simp add: Reader_read_def read_unit_def BinFileIn_read_def)
qed

lemma load_loop_stop:
  assumes "Reader_read e fs r = (Inl (RuntimeError msg), r1)"
  shows "fst (snd (load_loop e fs r)) = r1"
  using assms by (subst load_loop.simps) simp

lemma load_loop_not_ready:
  assumes "r_isOpen r" and "\<not> (in_is_open (r_file r) \<and> in_good (r_file r))"
  shows "r_data (fst (snd (load_loop e fs r))) = r_data r
       \<and> r_path (fst (snd (load_loop e fs r))) = r_path r
       \<and> r_isOpen (fst (snd (load_loop e fs r)))"
proof -
  from Reader_read_not_ready [OF assms, of e fs]
  obtain msg r1 where rd: "Reader_read e fs r = (Inl (RuntimeError msg), r1)"
    and r1: "r_data r1 = r_data r" "r_path r1 = r_path r" "r_isOpen r1"
    by blast
  from load_loop_stop [OF rd] r1 show ?thesis by simp
qed

lemma load_loop_opened:
  assumes "r_isOpen r" and "r_file r = opened bs"
  shows "r_data (fst (snd (load_loop e fs r))) = r_data r @ decoded_units e bs
       \<and> r_path (fst (snd (load_loop e fs r))) = r_path r
       \<and> r_isOpen (fst (snd (load_loop e fs r)))"
  using assms
proof (induction "length bs" arbitrary: bs r rule: less_induct)
  case less
  show ?case
  proof (cases "length bs < 4")
    case True
    with less.prems have "Reader_read e fs r =
        (Inl (RuntimeError (''Failed to read/convert data: '' @ ''End of file reached'')),
         r\<lparr>r_file := (opened [])\<lparr>eofbit := True, failbit := True\<rparr>\<rparr>)"
      by (simp add: Reader_read_def read_unit_def BinFileIn_read_short)
    from load_loop_stop [OF this] True less.prems(1) show ?thesis
      by (simp add: decoded_units_short)
  next
    case False
    then obtain b0 b1 b2 b3 payload where bs: "bs = b0 # b1 # b2 # b3 # payload"
      by (cases bs; cases "tl bs"; cases "tl (tl bs)"; cases "tl (tl (tl bs))") auto
    let ?n = "unat (length_field b0 b1 b2 b3)"
    let ?block = "take ?n payload @ replicate (?n - length payload) 0"
    let ?s = "if ?n \<le> length payload then opened (drop ?n payload)
              else (opened [])\<lparr>eofbit := True, failbit := True\<rparr>"
    show ?thesis
    proof (cases "?block = []")
      case True
      with less.prems bs have "Reader_read e fs r =
          (Inl (RuntimeError (''Failed to read/convert data: '' @ ''End of file reached'')),
           r\<lparr>r_file := ?s\<rparr>)"
        by (auto simp add: Reader_read_def read_unit_opened Let_def)
      from load_loop_stop [OF this] True bs less.prems(1) show ?thesis
        by (auto simp add: Let_def)
    next
      case ne: False
      show ?thesis
      proof (cases "CasinoBinConverter_convert_bytes e ?block")
        case (Inl ex)
        with less.prems bs ne have "Reader_read e fs r =
            (Inl (RuntimeError (''Failed to read/convert data: '' @ what ex)), r\<lparr>r_file := ?s\<rparr>)"
          by (auto simp add: Reader_read_def read_unit_opened Let_def)
        from load_loop_stop [OF this] Inl ne bs less.prems(1) show ?thesis
          by (auto simp add: Let_def)
      next
        case (Inr v)
        with less.prems bs ne have rd: "Reader_read e fs r = (Inr v, r\<lparr>r_file := ?s\<rparr>)"
          by (auto simp add: Reader_read_def read_unit_opened Let_def)
        let ?r = "r\<lparr>r_file := ?s, r_data := r_data r @ [v]\<rparr>"
        have step: "load_loop e fs r = load_loop e fs ?r"
          using rd by (subst load_loop.simps) simp
        have du: "decoded_units e bs = v # decoded_units e (drop ?n payload)"
          using bs ne Inr by (auto simp add: Let_def)
        show ?thesis
        proof (cases "?n \<le> length payload")
          case True
          have "r_data (fst (snd (load_loop e fs ?r))) =
                  r_data ?r @ decoded_units e (drop ?n payload)
              \<and> r_path (fst (snd (load_loop e fs ?r))) = r_path ?r
              \<and> r_isOpen (fst (snd (load_loop e fs ?r)))"
            using less.prems(1) True bs by (intro less.hyps) simp_all
          with step du show ?thesis by simp
        next
          case False
          have "r_data (fst (snd (load_loop e fs ?r))) = r_data ?r
              \<and> r_path (fst (snd (load_loop e fs ?r))) = r_path ?r
              \<and> r_isOpen (fst (snd (load_loop e fs ?r)))"
            using less.prems(1) False
            by (intro load_loop_not_ready) (simp_all add: opened_def in_good_def)
          with step du False show ?thesis by simp
        qed
      qed
    qed
  qed
qed

text \<open>
  The loop of \<open>load()\<close> on an open reader: the buffer grows by the units of its transport,
  and the reader keeps its path.
\<close>

lemma load_loop_units:
  assumes "r_isOpen r"
  shows "r_data (fst (snd (load_loop e fs r))) = r_data r @ stream_units e (r_file r)
       \<and> r_path (fst (snd (load_loop e fs r))) = r_path r
       \<and> r_isOpen (fst (snd (load_loop e fs r)))"
proof (cases "in_is_open (r_file r) \<and> in_good (r_file r)")
  case True
  then have "r_file r = opened (rest (r_file r))"
    by (simp add: open_good_is_opened)
  from load_loop_opened [OF assms this, of e fs] True show ?thesis
    by (simp add: stream_units_def)
next
  case False
  from load_loop_not_ready [OF assms False, of e fs] False show ?thesis
    by (auto simp add: stream_units_def)
qed

lemma decoded_units_frame:
  "decoded_units e (frame (CasinoBinConverter_convert_double e d) @ bs) = d # decoded_units e bs"
proof -
  have lf: "unat (length_field 12 0 0 0) = 12"
    by (simp add: length_field_def)
  have ne: "CasinoBinConverter_convert_double e d \<noteq> []"
    using length_convert_double [of e d] by (metis length_0_conv zero_neq_numeral)
  show ?thesis
    by (simp add: frame_convert_double lf Let_def ne convert_bytes_convert_double)
qed

lemma decoded_units_frames:
  "decoded_units e (concat (map (\<lambda>d. frame (CasinoBinConverter_convert_double e d)) xs) @ bs) =
     xs @ decoded_units e bs"
  by (induction xs) (simp_all add: decoded_units_frame)


lemma Reader_load_buffer:
  "(r_isOpen r \<longrightarrow>
       r_data (fst (snd (Reader_load e fs r))) = stream_units e (r_file r)
     \<and> r_path (fst (snd (Reader_load e fs r))) = r_path r)
   \<and> (\<not> r_isOpen r \<and> r_path r \<noteq> [] \<and> fs (r_path r) = Some bs \<longrightarrow>
       r_data (fst (snd (Reader_load e fs r))) = decoded_units e bs
     \<and> r_path (fst (snd (Reader_load e fs r))) = r_path r)
   \<and> (\<not> r_isOpen r \<and> r_path r = [] \<longrightarrow>
       Reader_load e fs r = (Inl (RuntimeError ''File path is not set''), r, []))
   \<and> (\<not> r_isOpen r \<and> r_path r \<noteq> [] \<and> fs (r_path r) = None \<longrightarrow>
       fst (Reader_load e fs r) =
         Inl (RuntimeError (''Failed to open file: '' @ r_path r @ '' ('' @
                (''Failed to open file: '' @ r_path r) @ '')''))
     \<and> r_data (fst (snd (Reader_load e fs r))) = r_data r
     \<and> \<not> r_isOpen (fst (snd (Reader_load e fs r))))"
proof (intro conjI impI)
  assume o: "r_isOpen r"
  then have f: "r_isOpen (Reader_flush r)" by (simp add: Reader_flush_def)
  from load_loop_units [OF f, of e fs] o
  show "r_data (fst (snd (Reader_load e fs r))) = stream_units e (r_file r)"
    and "r_path (fst (snd (Reader_load e fs r))) = r_path r"
    by (simp_all add: Reader_load_ok Let_def Reader_close_def Reader_flush_def)
next
  assume a: "\<not> r_isOpen r \<and> r_path r \<noteq> [] \<and> fs (r_path r) = Some bs"
  let ?r = "Reader_flush (r\<lparr>r_file := opened bs, r_isOpen := True\<rparr>)"
  have "r_isOpen ?r" and "r_file ?r = opened bs"
    by (simp_all add: Reader_flush_def)
  from load_loop_opened [OF this, of e fs] a
  show "r_data (fst (snd (Reader_load e fs r))) = decoded_units e bs"
    and "r_path (fst (snd (Reader_load e fs r))) = r_path r"
    by (simp_all add: Reader_load_ok Let_def Reader_open_eq Reader_close_def Reader_flush_def)
next
  assume "\<not> r_isOpen r \<and> r_path r = []"
  then show "Reader_load e fs r = (Inl (RuntimeError ''File path is not set''), r, [])"
    by (simp add: Reader_load_def)
next
  assume a: "\<not> r_isOpen r \<and> r_path r \<noteq> [] \<and> fs (r_path r) = None"
  then show "fst (Reader_load e fs r) =
         Inl (RuntimeError (''Failed to open file: '' @ r_path r @ '' ('' @
                (''Failed to open file: '' @ r_path r) @ '')''))"
    and "r_data (fst (snd (Reader_load e fs r))) = r_data r"
    and "\<not> r_isOpen (fst (snd (Reader_load e fs r)))"
    by (simp_all add: Reader_load_def Reader_open_eq)
qed

text \<open>
  A frame cut in its payload: \<open>read()\<close> fills the block up with zeros, and the converter
  takes it for a unit.
\<close>

lemma decoded_units_cut_frame:
  "decoded_units LittleEndian [12, 0, 0, 0, 1, 0, 0, 0, 170, 187] = [0xBBAA]"
proof -
  have lf: "unat (length_field 12 0 0 0) = 12"
    by (simp add: length_field_def)
  have r: "replicate 6 (0 :: byte) = [0, 0, 0, 0, 0, 0]"
    by (simp add: numeral_eq_Suc)
  show ?thesis
    by (simp add: lf Let_def r CasinoBinConverter_convert_bytes_def object_value_def)
qed

text \<open>
  A complete length field and fewer payload bytes than it announces: \<open>read()\<close> raises
  nothing, since its guard is \<open>fail() && !eof()\<close> and a short read sets both bits. It
  returns a block of the announced length, the payload that is there followed by the zeros
  \<open>resize\<close> put in, and leaves the stream failed, so that the next \<open>read()\<close> raises.
\<close>

lemma BinFileIn_read_short_payload:
  assumes "in_is_open s" and "in_good s"
    and "rest s = b0 # b1 # b2 # b3 # payload"
    and "length payload < unat (length_field b0 b1 b2 b3)"
  shows "BinFileIn_read s =
           (Inr (payload @ replicate (unat (length_field b0 b1 b2 b3) - length payload) 0),
            s\<lparr>rest := [], eofbit := True, failbit := True\<rparr>)
       \<and> length (payload @ replicate (unat (length_field b0 b1 b2 b3) - length payload) 0)
           = unat (length_field b0 b1 b2 b3)
       \<and> fst (BinFileIn_read (snd (BinFileIn_read s))) =
           Inl (RuntimeError ''No file opened for reading'')"
proof -
  have s: "s = opened (b0 # b1 # b2 # b3 # payload)"
    using open_good_is_opened [OF assms(1,2)] assms(3) by simp
  have e: "(opened [])\<lparr>eofbit := True, failbit := True\<rparr> =
      s\<lparr>rest := [], eofbit := True, failbit := True\<rparr>"
    using assms(1,2) by (cases s) (simp add: opened_def in_good_def)
  have r: "BinFileIn_read s =
      (Inr (payload @ replicate (unat (length_field b0 b1 b2 b3) - length payload) 0),
       s\<lparr>rest := [], eofbit := True, failbit := True\<rparr>)"
    using assms(4) by (subst s) (simp add: BinFileIn_read_frame Let_def e)
  have "fst (BinFileIn_read (s\<lparr>rest := [], eofbit := True, failbit := True\<rparr>)) =
      Inl (RuntimeError ''No file opened for reading'')"
    by (simp add: BinFileIn_read_def in_fail_def)
  with r assms(4) show ?thesis by simp
qed

section \<open>Claims on the binary transport\<close>

text \<open>
  At a transport holding only two of the four length bytes, \<open>read()\<close> returns the empty
  block and raises nothing.
\<close>

theorem C4_counterexample:
  "fst (BinFileIn_read (opened [16, 0])) = Inr []"
  by (simp add: BinFileIn_read_short)

text \<open>
  Claim C4, as the code has it: on an open transport in good state, \<open>read()\<close> raises
  nothing when the end of the stream falls inside the length field. With 0 to 3 length
  bytes available it returns the empty block (the \<open>eof()\<close> test precedes the
  \<open>fail()\<close> test in every iteration), and the empty block is returned exactly when
  fewer than 4 bytes remain or the length field is zero.
\<close>

theorem C4_truncated_length_field_returns_empty:
  assumes "in_is_open s" and "in_good s"
  shows "(length (rest s) < 4 \<longrightarrow>
            BinFileIn_read s = (Inr [], s\<lparr>rest := [], eofbit := True, failbit := True\<rparr>))
       \<and> (fst (BinFileIn_read s) = Inr [] \<longleftrightarrow>
            length (rest s) < 4 \<or> take 4 (rest s) = [0, 0, 0, 0])"
proof -
  have s: "s = opened (rest s)"
    using assms by (rule open_good_is_opened)
  show ?thesis
  proof (cases "length (rest s) < 4")
    case True
    then have "BinFileIn_read (opened (rest s)) =
        (Inr [], (opened [])\<lparr>eofbit := True, failbit := True\<rparr>)"
      by (rule BinFileIn_read_short)
    moreover have "(opened [])\<lparr>eofbit := True, failbit := True\<rparr> =
        s\<lparr>rest := [], eofbit := True, failbit := True\<rparr>"
      using assms by (cases s) (simp add: opened_def in_good_def)
    ultimately show ?thesis using True s by simp
  next
    case False
    then obtain b0 b1 b2 b3 bs where r: "rest s = b0 # b1 # b2 # b3 # bs"
      by (cases "rest s"; cases "tl (rest s)"; cases "tl (tl (rest s))";
          cases "tl (tl (tl (rest s)))") auto
    have "fst (BinFileIn_read (opened (b0 # b1 # b2 # b3 # bs))) = Inr [] \<longleftrightarrow>
        length_field b0 b1 b2 b3 = 0"
      by (auto simp add: BinFileIn_read_frame Let_def unat_eq_0)
    with s r False show ?thesis
      by (simp add: length_field_eq_0)
  qed
qed

text \<open>The theorem at a two-byte file and at a frame of length zero.\<close>

theorem C4_truncated_length_field_returns_empty_witness:
  "BinFileIn_read (opened [16, 0]) = (Inr [], (opened [])\<lparr>eofbit := True, failbit := True\<rparr>)
   \<and> fst (BinFileIn_read (opened [0, 0, 0, 0, 7])) = Inr []"
  using C4_truncated_length_field_returns_empty [of "opened [16, 0]"]
    C4_truncated_length_field_returns_empty [of "opened [0, 0, 0, 0, 7]"]
  by (simp add: opened_def in_good_def numeral_eq_Suc)

text \<open>
  Claim C5 fails on the code. At a frame that announces five payload bytes and holds one,
  \<open>read()\<close> raises nothing and returns a block of five bytes, the last four of them
  zeros that were never read; the next \<open>read()\<close> raises. The block goes on to the
  converter like any other: a channel file whose second frame is cut after six of its
  twelve payload bytes loads as two values, the second one never written.
\<close>

theorem C5_short_payload_at_failing_input:
  "BinFileIn_read (opened [5, 0, 0, 0, 170]) =
     (Inr [170, 0, 0, 0, 0], (opened [])\<lparr>eofbit := True, failbit := True\<rparr>)
   \<and> fst (BinFileIn_read (snd (BinFileIn_read (opened [5, 0, 0, 0, 170])))) =
       Inl (RuntimeError ''No file opened for reading'')
   \<and> fst (Reader_load LittleEndian
         [''ch'' \<mapsto> frame (CasinoBinConverter_convert_double LittleEndian 0x3FF0000000000000)
                    @ [12, 0, 0, 0, 1, 0, 0, 0, 170, 187]]
         (Reader_init ''ch'')) = Inr ()
   \<and> r_data (fst (snd (Reader_load LittleEndian
         [''ch'' \<mapsto> frame (CasinoBinConverter_convert_double LittleEndian 0x3FF0000000000000)
                    @ [12, 0, 0, 0, 1, 0, 0, 0, 170, 187]]
         (Reader_init ''ch'')))) = [0x3FF0000000000000, 0xBBAA]"
proof -
  have lf: "unat (length_field 5 0 0 0) = 5"
    by (simp add: length_field_def)
  have rd: "BinFileIn_read (opened [5, 0, 0, 0, 170]) =
      (Inr [170, 0, 0, 0, 0], (opened [])\<lparr>eofbit := True, failbit := True\<rparr>)"
    using BinFileIn_read_short_payload [of "opened [5, 0, 0, 0, 170]" 5 0 0 0 "[170]"]
    unfolding opened_def in_good_def by (auto simp add: lf numeral_eq_Suc)
  have nx: "fst (BinFileIn_read ((opened [])\<lparr>eofbit := True, failbit := True\<rparr>)) =
      Inl (RuntimeError ''No file opened for reading'')"
    by (simp add: BinFileIn_read_def in_fail_def opened_def)
  let ?fs = "[''ch'' \<mapsto> frame (CasinoBinConverter_convert_double LittleEndian 0x3FF0000000000000)
                    @ [12, 0, 0, 0, 1, 0, 0, 0, 170, 187]]"
  have cut: "decoded_units LittleEndian
      (frame (CasinoBinConverter_convert_double LittleEndian 0x3FF0000000000000)
        @ [12, 0, 0, 0, 1, 0, 0, 0, 170, 187]) = [0x3FF0000000000000, 0xBBAA]"
    by (simp only: decoded_units_frame decoded_units_cut_frame)
  have ok: "fst (Reader_load LittleEndian ?fs (Reader_init ''ch'')) = Inr ()"
    by (simp add: Reader_load_ok Let_def Reader_init_def)
  have ld: "r_data (fst (snd (Reader_load LittleEndian ?fs (Reader_init ''ch'')))) =
      [0x3FF0000000000000, 0xBBAA]"
    using Reader_load_buffer [where r="Reader_init ''ch''" and e=LittleEndian and fs="?fs"
        and bs="frame (CasinoBinConverter_convert_double LittleEndian 0x3FF0000000000000)
                    @ [12, 0, 0, 0, 1, 0, 0, 0, 170, 187]"] cut
    by (simp add: Reader_init_def)
  show ?thesis
    using rd nx ok ld by simp
qed

section \<open>Claims on the reader\<close>



section \<open>Claims on the writer\<close>

text \<open>
  Claim C1 fails on the code. The channel file holds the frames of 2.0 and 3.0 (the writer
  cannot open a file that is not there). Writing the one-element sequence 1.0 succeeds, and
  so does reading the file back once the bytes have reached it, but the sequence read is
  1.0, 3.0: the output transports open with \<open>std::ios::in\<close>, which keeps the old bytes
  behind the new frame.
\<close>

theorem C1_roundtrip_on_longer_file:
  "fst (Writer_write_range (CasinoBinConverter_convert_double LittleEndian) BinFileOut
          [''ch'' \<mapsto> [12, 0, 0, 0, 1, 0, 0, 0, 0, 0, 0, 0, 0, 0, 0, 64,
                     12, 0, 0, 0, 1, 0, 0, 0, 0, 0, 0, 0, 0, 0, 8, 64]]
          [0x3FF0000000000000] (Writer_init ''ch'')) = Inr ()
   \<and> fst (Reader_load LittleEndian
          (fst (snd (Writer_write_range (CasinoBinConverter_convert_double LittleEndian) BinFileOut
             [''ch'' \<mapsto> [12, 0, 0, 0, 1, 0, 0, 0, 0, 0, 0, 0, 0, 0, 0, 64,
                        12, 0, 0, 0, 1, 0, 0, 0, 0, 0, 0, 0, 0, 0, 8, 64]]
             [0x3FF0000000000000] (Writer_init ''ch''))))
          (Reader_init ''ch'')) = Inr ()
   \<and> Reader_getData (fst (snd (Reader_load LittleEndian
          (fst (snd (Writer_write_range (CasinoBinConverter_convert_double LittleEndian) BinFileOut
             [''ch'' \<mapsto> [12, 0, 0, 0, 1, 0, 0, 0, 0, 0, 0, 0, 0, 0, 0, 64,
                        12, 0, 0, 0, 1, 0, 0, 0, 0, 0, 0, 0, 0, 0, 8, 64]]
             [0x3FF0000000000000] (Writer_init ''ch''))))
          (Reader_init ''ch'')))) = [0x3FF0000000000000, 0x4008000000000000]"
proof -
  let ?old = "[12, 0, 0, 0, 1, 0, 0, 0, 0, 0, 0, 0, 0, 0, 0, 64,
               12, 0, 0, 0, 1, 0, 0, 0, 0, 0, 0, 0, 0, 0, 8, 64] :: byte list"
  have d: "drop (length (concat (map (\<lambda>d. frame (CasinoBinConverter_convert_double LittleEndian d))
                [0x3FF0000000000000]))) ?old =
      concat (map (\<lambda>d. frame (CasinoBinConverter_convert_double LittleEndian d))
                [0x4008000000000000]) @ []"
    by (simp add: frame_convert_double)
       (simp add: CasinoBinConverter_convert_double_def object_bytes_def le_bytes_numeral)
  show ?thesis
    using write_then_load [where fs="[''ch'' \<mapsto> ?old]" and p="''ch''" and old="?old"
        and e=LittleEndian and xs="[0x3FF0000000000000]" and zs="[0x4008000000000000]"
        and rest_bytes="[]", OF _ _ d read_unit_at_end]
    by simp
qed

text \<open>
  Claim C3: both output transports open with \<open>binary | in\<close>, which \<open>std::ofstream\<close>
  turns into the mode \<open>r+\<close>; so opening a file that does not exist fails and creates
  nothing (with \<open>binary\<close> alone the file would be created), and a first
  \<open>Writer::write\<close> to such a path raises the runtime error of the lazy open and leaves
  the file system as it was.
\<close>

theorem C3_output_open_needs_existing_file:
  assumes "fs p = None"
  shows "fopen_mode (ios_out # [ios_binary, ios_in]) = Some Mode_r_plus
       \<and> fst (ofstream_open fs p [ios_binary] ofstream_init) p = Some []
       \<and> BinFileOut_open fs p s =
           (Inl (RuntimeError (''Failed to open file: '' @ p)), fs,
            (BinFileOut_close s)\<lparr>out_failbit := True\<rparr>)
       \<and> CSVFileOut_open fs p s =
           (Inl (RuntimeError (''Failed to open file: '' @ p)), fs,
            (CSVFileOut_close s)\<lparr>out_failbit := True\<rparr>)
       \<and> (\<not> w_isOpen w \<and> w_path w = p \<and> p \<noteq> [] \<longrightarrow>
            fst (Writer_write cb BinFileOut fs d w) =
              Inl (RuntimeError (''Failed to open file: '' @ p @ '' ('' @
                     (''Failed to open file: '' @ p) @ '')''))
          \<and> fst (snd (Writer_write cb BinFileOut fs d w)) = fs
          \<and> fst (Writer_write cc CSVFileOut fs d' w) =
              Inl (RuntimeError (''Failed to open file: '' @ p @ '' ('' @
                     (''Failed to open file: '' @ p) @ '')''))
          \<and> fst (snd (Writer_write cc CSVFileOut fs d' w)) = fs)"
proof -
  have m: "fopen_mode (ios_out # [ios_binary, ios_in]) = Some Mode_r_plus"
    by (simp add: fopen_mode_def)
  have c: "fst (ofstream_open fs p [ios_binary] ofstream_init) p = Some []"
    by (simp add: ofstream_open_def fopen_mode_def ofstream_init_def Let_def)
  have b: "BinFileOut_open fs p s =
      (Inl (RuntimeError (''Failed to open file: '' @ p)), fs,
       (BinFileOut_close s)\<lparr>out_failbit := True\<rparr>)" for s
    using assms by (simp add: BinFileOut_open_eq)
  have v: "CSVFileOut_open fs p s =
      (Inl (RuntimeError (''Failed to open file: '' @ p)), fs,
       (CSVFileOut_close s)\<lparr>out_failbit := True\<rparr>)" for s
    using assms by (simp add: CSVFileOut_open_eq)
  have wb: "Writer_write cb BinFileOut fs d w =
      (Inl (RuntimeError (''Failed to open file: '' @ p @ '' ('' @
              (''Failed to open file: '' @ p) @ '')'')), fs,
       w\<lparr>w_file := (BinFileOut_close (w_file w))\<lparr>out_failbit := True\<rparr>\<rparr>)"
    if "\<not> w_isOpen w \<and> w_path w = p \<and> p \<noteq> []"
    using that by (simp add: Writer_write_def Writer_open_def BinFileOut_def b)
  have wc: "Writer_write cc CSVFileOut fs d' w =
      (Inl (RuntimeError (''Failed to open file: '' @ p @ '' ('' @
              (''Failed to open file: '' @ p) @ '')'')), fs,
       w\<lparr>w_file := (CSVFileOut_close (w_file w))\<lparr>out_failbit := True\<rparr>\<rparr>)"
    if "\<not> w_isOpen w \<and> w_path w = p \<and> p \<noteq> []"
    using that by (simp add: Writer_write_def Writer_open_def CSVFileOut_def v)
  show ?thesis
    using m c b v wb wc by simp
qed

text \<open>
  The theorem at a writer bound to a channel file of a replication directory that holds
  no file yet.
\<close>

theorem C3_output_open_needs_existing_file_witness:
  "fst (Writer_write (CasinoBinConverter_convert_double LittleEndian) BinFileOut Map.empty
          0x3FF0000000000000 (Writer_init ''out/Rep1/automat.csv'')) =
     Inl (RuntimeError
       ''Failed to open file: out/Rep1/automat.csv (Failed to open file: out/Rep1/automat.csv)'')
   \<and> fst (snd (Writer_write (CasinoBinConverter_convert_double LittleEndian) BinFileOut Map.empty
          0x3FF0000000000000 (Writer_init ''out/Rep1/automat.csv''))) = Map.empty"
  using C3_output_open_needs_existing_file
    [where fs=Map.empty and p="''out/Rep1/automat.csv''"
      and w="Writer_init ''out/Rep1/automat.csv''"
      and cb="CasinoBinConverter_convert_double LittleEndian" and d="0x3FF0000000000000"
      and s=ofstream_init and cc="\<lambda>u::unit. []" and d'="()"]
  by (simp add: Writer_init_def)

section \<open>Claims on the output manager\<close>

text \<open>
  Claim C7: on a manager whose counter is at its initial value 1 and whose prefix name is
  \<open>P\<close>, the \<open>i\<close>-th call of \<open>newReplication()\<close> sets the current replication name to
  \<open>P\<close> followed by the decimal numeral of \<open>i\<close>, whatever the directories looked like at
  each call and whether or not earlier calls raised; the names of different calls differ.
\<close>

theorem C7_replication_names:
  assumes "keeps_name init" and "counter om = 1"
    and "0 < i" and "i \<le> length dss" and "length dss < 2147483647"
  shows "currentReplicationName (newReplications init wclose (take i dss) om) =
           replicationName om @ to_string (int i)
       \<and> counter (newReplications init wclose (take i dss) om) = int i + 1
       \<and> (\<forall>j. 0 < j \<and> j \<le> length dss \<and> j \<noteq> i \<longrightarrow>
             currentReplicationName (newReplications init wclose (take j dss) om) \<noteq>
             currentReplicationName (newReplications init wclose (take i dss) om))"
proof -
  have name: "currentReplicationName (newReplications init wclose (take k dss) om) =
      replicationName om @ to_string (int k)"
    and cnt: "counter (newReplications init wclose (take k dss) om) = int k + 1"
    if "0 < k" and "k \<le> length dss" for k
    using that assms(2) newReplications_fields [OF assms(1), of wclose "take k dss" om]
    by auto
  have "replicationName om @ to_string (int j) \<noteq> replicationName om @ to_string (int i)"
    if "j \<noteq> i" for j
    using that to_string_inj_nat [of j i] by auto
  with name cnt assms(3,4) show ?thesis by simp
qed

text \<open>
  The theorem at the casino manager named \<open>Rep\<close> and three calls: into an empty base
  directory, with \<open>Rep2/\<close> already there, and with a system that refuses to create
  directories.
\<close>

theorem C7_replication_names_witness:
  "currentReplicationName
     (newReplications CasinoBinOutputManager_init (Writer_close BinFileOut)
        [\<lparr>d_exists = (\<lambda>p. False), d_creatable = (\<lambda>p. True)\<rparr>,
         \<lparr>d_exists = (\<lambda>p. p = ''Rep2/''), d_creatable = (\<lambda>p. True)\<rparr>,
         \<lparr>d_exists = (\<lambda>p. False), d_creatable = (\<lambda>p. False)\<rparr>]
        (setName ''Rep'' OutputManager_init)) = ''Rep3''"
  using C7_replication_names [where init=CasinoBinOutputManager_init
      and om="setName ''Rep'' OutputManager_init" and i=3
      and dss="[\<lparr>d_exists = (\<lambda>p. False), d_creatable = (\<lambda>p. True)\<rparr>,
         \<lparr>d_exists = (\<lambda>p. p = ''Rep2/''), d_creatable = (\<lambda>p. True)\<rparr>,
         \<lparr>d_exists = (\<lambda>p. False), d_creatable = (\<lambda>p. False)\<rparr>]"
      and wclose="Writer_close BinFileOut"]
  by (simp add: keeps_name_CasinoBin setName_def OutputManager_init_def to_string_def
      digits.simps digit_char_def)

section \<open>Claims on the input manager\<close>

text \<open>
  Claim C9: \<open>loadBatch(start, end)\<close> with \<open>end < start\<close> raises the invalid-argument
  error and leaves the manager as it was; and when one of the scanned directories has a
  name without a trailing digit, the call raises the runtime error
  \<open>Failed processing file: ...\<close> instead of returning.
\<close>

theorem C9_loadBatch_errors:
  "(end' < start \<longrightarrow>
      loadBatch ls rinit start end' im =
        (Inl (InvalidArgument ''End value must be greater than or equal to start value''), im))
   \<and> (start \<le> end' \<and> ls (im_basePath im) = Some entries
       \<and> (\<exists>entry \<in> set entries. is_directory entry
             \<and> (filename entry = [] \<or> \<not> is_digit (last (filename entry)))) \<longrightarrow>
         (\<exists>folder. fst (loadBatch ls rinit start end' im) =
            Inl (RuntimeError (''Failed processing file: '' @ folder))))"
proof (intro conjI impI)
  assume "end' < start"
  then show "loadBatch ls rinit start end' im =
      (Inl (InvalidArgument ''End value must be greater than or equal to start value''), im)"
    by (simp add: loadBatch_def)
next
  assume a: "start \<le> end' \<and> ls (im_basePath im) = Some entries
       \<and> (\<exists>entry \<in> set entries. is_directory entry
             \<and> (filename entry = [] \<or> \<not> is_digit (last (filename entry))))"
  then have "fst (batch_entries rinit (im_basePath im) start end' entries (replications im)) \<noteq> Inr ()"
    by (intro batch_entries_aborts) simp
  with batch_entries_result [of rinit "im_basePath im" start end' entries "replications im"]
  obtain folder where "fst (batch_entries rinit (im_basePath im) start end' entries (replications im)) =
      Inl (RuntimeError (''Failed processing file: '' @ folder))"
    by auto
  with a show "\<exists>folder. fst (loadBatch ls rinit start end' im) =
      Inl (RuntimeError (''Failed processing file: '' @ folder))"
    by (auto simp add: loadBatch_def split: prod.splits)
qed

text \<open>
  The theorem at a base directory holding \<open>Rep1\<close>, \<open>Foo\<close> and \<open>Rep2\<close>, loaded with the
  range 1 to 2 and with the range 2 to 1.
\<close>

theorem C9_loadBatch_errors_witness:
  "loadBatch (\<lambda>p. Some [\<lparr>filename = ''Rep1'', is_directory = True\<rparr>,
                         \<lparr>filename = ''Foo'', is_directory = True\<rparr>,
                         \<lparr>filename = ''Rep2'', is_directory = True\<rparr>])
      CasinoBinReplication_init 2 1 (InputManager_setBasePath ''base'' InputManager_init) =
     (Inl (InvalidArgument ''End value must be greater than or equal to start value''),
      InputManager_setBasePath ''base'' InputManager_init)
   \<and> fst (loadBatch (\<lambda>p. Some [\<lparr>filename = ''Rep1'', is_directory = True\<rparr>,
                         \<lparr>filename = ''Foo'', is_directory = True\<rparr>,
                         \<lparr>filename = ''Rep2'', is_directory = True\<rparr>])
      CasinoBinReplication_init 1 2 (InputManager_setBasePath ''base'' InputManager_init)) =
     Inl (RuntimeError ''Failed processing file: Foo'')"
proof -
  let ?ls = "\<lambda>p::string. Some [\<lparr>filename = ''Rep1'', is_directory = True\<rparr>,
                         \<lparr>filename = ''Foo'', is_directory = True\<rparr>,
                         \<lparr>filename = ''Rep2'', is_directory = True\<rparr>]"
  let ?im = "InputManager_setBasePath ''base'' InputManager_init"
  have 1: "stoi (drop (numStart ''Rep1'') ''Rep1'') = Inr 1"
    by (simp add: numStart_def stoi_def is_space_def is_digit_def nat_of_digits_def digit_val_def)
  have 2: "stoi (drop (numStart ''Foo'') ''Foo'') = Inl (InvalidArgument ''stoi'')"
    by (simp add: numStart_def stoi_def is_space_def is_digit_def nat_of_digits_def digit_val_def)
  have e: "fst (loadBatch ?ls CasinoBinReplication_init 1 2 ?im) =
      Inl (RuntimeError ''Failed processing file: Foo'')"
    by (simp add: loadBatch_def Let_def 1 2 make_replication_def CasinoBinReplication_init_def)
  from C9_loadBatch_errors [of 1 2 ?ls CasinoBinReplication_init ?im]
    C9_loadBatch_errors [of 2 1 ?ls CasinoBinReplication_init ?im
      "[\<lparr>filename = ''Rep1'', is_directory = True\<rparr>,
        \<lparr>filename = ''Foo'', is_directory = True\<rparr>,
        \<lparr>filename = ''Rep2'', is_directory = True\<rparr>]"]
  have "loadBatch ?ls CasinoBinReplication_init 2 1 ?im =
      (Inl (InvalidArgument ''End value must be greater than or equal to start value''), ?im)"
    by simp
  with e show ?thesis by simp
qed

section \<open>Claims on discovery\<close>

text \<open>
  On the four subdirectories in the order \<open>Rep2\<close>, \<open>Rep10\<close>, \<open>Rep1\<close>, \<open>Foo\<close>, discovery
  leaves the collection in the order \<open>Foo\<close>, \<open>Rep1\<close>, \<open>Rep2\<close>, \<open>Rep10\<close>, not in the
  order \<open>Rep1\<close>, \<open>Rep2\<close>, \<open>Rep10\<close>, \<open>Foo\<close>.
\<close>

theorem C2_counterexample:
  "map rep_name (replications (snd (loadReplications
      (\<lambda>p. Some [\<lparr>filename = ''Rep2'', is_directory = True\<rparr>,
                  \<lparr>filename = ''Rep10'', is_directory = True\<rparr>,
                  \<lparr>filename = ''Rep1'', is_directory = True\<rparr>,
                  \<lparr>filename = ''Foo'', is_directory = True\<rparr>])
      CasinoBinReplication_init (InputManager_setBasePath ''base'' InputManager_init)))) =
     [''Foo'', ''Rep1'', ''Rep2'', ''Rep10'']
   \<and> map rep_name (replications (snd (loadReplications
      (\<lambda>p. Some [\<lparr>filename = ''Rep2'', is_directory = True\<rparr>,
                  \<lparr>filename = ''Rep10'', is_directory = True\<rparr>,
                  \<lparr>filename = ''Rep1'', is_directory = True\<rparr>,
                  \<lparr>filename = ''Foo'', is_directory = True\<rparr>])
      CasinoBinReplication_init (InputManager_setBasePath ''base'' InputManager_init)))) \<noteq>
     [''Rep1'', ''Rep2'', ''Rep10'', ''Foo'']"
  using loadReplications_four
    [where ls="\<lambda>p. Some [\<lparr>filename = ''Rep2'', is_directory = True\<rparr>,
                  \<lparr>filename = ''Rep10'', is_directory = True\<rparr>,
                  \<lparr>filename = ''Rep1'', is_directory = True\<rparr>,
                  \<lparr>filename = ''Foo'', is_directory = True\<rparr>]"
      and im="InputManager_setBasePath ''base'' InputManager_init"
      and es="[\<lparr>filename = ''Rep2'', is_directory = True\<rparr>,
                  \<lparr>filename = ''Rep10'', is_directory = True\<rparr>,
                  \<lparr>filename = ''Rep1'', is_directory = True\<rparr>,
                  \<lparr>filename = ''Foo'', is_directory = True\<rparr>]"]
  by (simp add: InputManager_setBasePath_def InputManager_init_def)

text \<open>
  Claim C2, as the code has it: after discovery over exactly the subdirectories \<open>Rep2\<close>,
  \<open>Rep10\<close>, \<open>Rep1\<close>, \<open>Foo\<close>, in whatever order the system lists them,
  \<open>sortReplications\<close> leaves the collection in the order \<open>Foo\<close>, \<open>Rep1\<close>, \<open>Rep2\<close>,
  \<open>Rep10\<close>: the name without a key is compared by name with every other, and \<open>Foo\<close> is
  lexicographically less than the \<open>Rep\<close> names; the names with a key ascend by key. This
  is the only arrangement of the four that is sorted by the comparator.
\<close>

theorem C2_discovery_order:
  assumes "ls (im_basePath im) = Some es"
    and "mset (map filename (filter is_directory es)) = mset [''Rep2'', ''Rep10'', ''Rep1'', ''Foo'']"
    and "replications im = []"
  shows "fst (loadReplications ls CasinoBinReplication_init im) = Inr ()
       \<and> map rep_name (replications (snd (loadReplications ls CasinoBinReplication_init im))) =
           [''Foo'', ''Rep1'', ''Rep2'', ''Rep10'']
       \<and> (\<forall>ys. mset ys = mset (map (\<lambda>nm. make_sortable (casino_replication (im_basePath im) nm))
                              (map filename (filter is_directory es)))
               \<and> sorted_wrt (\<lambda>a b. \<not> sortable_less b a) ys \<longrightarrow>
             map s_name ys = [''Foo'', ''Rep1'', ''Rep2'', ''Rep10''])"
proof -
  have "map s_name ys = [''Foo'', ''Rep1'', ''Rep2'', ''Rep10'']"
    if "mset ys = mset (map (\<lambda>nm. make_sortable (casino_replication (im_basePath im) nm))
                              (map filename (filter is_directory es)))"
      and "sorted_wrt (\<lambda>a b. \<not> sortable_less b a) ys" for ys
    using sorted_four [OF assms(2) that] by simp
  with loadReplications_four [where ls=ls and im=im and es=es] assms show ?thesis by blast
qed

text \<open>The theorem at a listing that also holds a plain file.\<close>

theorem C2_discovery_order_witness:
  "map rep_name (replications (snd (loadReplications
      (\<lambda>p. Some [\<lparr>filename = ''Rep10'', is_directory = True\<rparr>,
                  \<lparr>filename = ''notes.txt'', is_directory = False\<rparr>,
                  \<lparr>filename = ''Foo'', is_directory = True\<rparr>,
                  \<lparr>filename = ''Rep2'', is_directory = True\<rparr>,
                  \<lparr>filename = ''Rep1'', is_directory = True\<rparr>])
      CasinoBinReplication_init (InputManager_setBasePath ''base'' InputManager_init)))) =
     [''Foo'', ''Rep1'', ''Rep2'', ''Rep10'']"
  using C2_discovery_order
    [where ls="\<lambda>p. Some [\<lparr>filename = ''Rep10'', is_directory = True\<rparr>,
                  \<lparr>filename = ''notes.txt'', is_directory = False\<rparr>,
                  \<lparr>filename = ''Foo'', is_directory = True\<rparr>,
                  \<lparr>filename = ''Rep2'', is_directory = True\<rparr>,
                  \<lparr>filename = ''Rep1'', is_directory = True\<rparr>]"
      and im="InputManager_setBasePath ''base'' InputManager_init"
      and es="[\<lparr>filename = ''Rep10'', is_directory = True\<rparr>,
                  \<lparr>filename = ''notes.txt'', is_directory = False\<rparr>,
                  \<lparr>filename = ''Foo'', is_directory = True\<rparr>,
                  \<lparr>filename = ''Rep2'', is_directory = True\<rparr>,
                  \<lparr>filename = ''Rep1'', is_directory = True\<rparr>]"]
  by (simp add: InputManager_setBasePath_def InputManager_init_def add_mset_commute)

section \<open>Claims on the statistics\<close>

text \<open>
  Claim C8: \<open>getMean(index)\<close> is total. It returns \<open>arma::mean\<close> of the channel's aggregate
  vector when the index is below the number of vectors and the vector is not empty, and
  the double 0.0 otherwise. The number of vectors is 5 after any sequence of calls on a
  fresh \<open>CasinoBinStatistics\<close>, so every index from 5 on gives 0.0; and a fresh instance of
  either casino statistics gives 0.0 at every index.
\<close>

theorem C8_getMean:
  "CasinoBinStatistics_getMean arma_mean st index =
     (if index < length (armaVecs st) \<and> armaVecs st ! index \<noteq> []
      then arma_mean (armaVecs st ! index) else 0)
   \<and> CasinoStatistics_getMean arma_mean cst index =
     (if index < length (cs_armaVecs cst) \<and> cs_armaVecs cst ! index \<noteq> []
      then arma_mean (cs_armaVecs cst ! index) else 0)
   \<and> length (armaVecs (calls e cs CasinoBinStatistics_init)) = 5
   \<and> (5 \<le> index \<longrightarrow>
        CasinoBinStatistics_getMean arma_mean (calls e cs CasinoBinStatistics_init) index = 0)
   \<and> CasinoBinStatistics_getMean arma_mean CasinoBinStatistics_init index = 0
   \<and> CasinoStatistics_getMean arma_mean CasinoStatistics_init index = 0"
proof -
  have len: "length (armaVecs (calls e cs CasinoBinStatistics_init)) = 5"
    by (simp add: calls_length) (simp add: CasinoBinStatistics_init_def)
  have fresh: "getMean arma_mean (replicate 5 []) index = 0"
  proof (cases "index < 5")
    case True
    then have "replicate 5 [] ! index = ([] :: double list)" by simp
    then show ?thesis by (simp add: getMean_def)
  next
    case False
    then show ?thesis by (simp add: getMean_def)
  qed
  have b: "CasinoBinStatistics_getMean arma_mean CasinoBinStatistics_init index = 0"
    using fresh by (simp add: CasinoBinStatistics_getMean_def CasinoBinStatistics_init_def)
  have c: "CasinoStatistics_getMean arma_mean CasinoStatistics_init index = 0"
    using fresh by (simp add: CasinoStatistics_getMean_def CasinoStatistics_init_def)
  have r: "5 \<le> index \<longrightarrow>
      CasinoBinStatistics_getMean arma_mean (calls e cs CasinoBinStatistics_init) index = 0"
    using len by (simp add: CasinoBinStatistics_getMean_def getMean_def)
  have g: "CasinoBinStatistics_getMean arma_mean st index =
     (if index < length (armaVecs st) \<and> armaVecs st ! index \<noteq> []
      then arma_mean (armaVecs st ! index) else 0)"
    by (simp add: CasinoBinStatistics_getMean_def getMean_def)
  have h: "CasinoStatistics_getMean arma_mean cst index =
     (if index < length (cs_armaVecs cst) \<and> cs_armaVecs cst ! index \<noteq> []
      then arma_mean (cs_armaVecs cst ! index) else 0)"
    by (simp add: CasinoStatistics_getMean_def getMean_def)
  show ?thesis
    using g h len r b c by blast
qed

text \<open>
  The theorem at index 7, after a failed load of a folder, a processing run and a clear.
\<close>

theorem C8_getMean_witness:
  "(5::nat) \<le> 7
   \<and> CasinoBinStatistics_getMean (\<lambda>vec. 1)
        (calls LittleEndian
           [SetBasePath ''base'', LoadFolders (\<lambda>p. False) [''Rep1''],
            ProcessAllReplications Map.empty, ClearData]
           CasinoBinStatistics_init) 7 = 0"
  using C8_getMean [where index=7 and arma_mean="\<lambda>vec. 1" and e=LittleEndian
      and cs="[SetBasePath ''base'', LoadFolders (\<lambda>p. False) [''Rep1''],
            ProcessAllReplications Map.empty, ClearData]"]
  by simp

text \<open>
  Claim C10 fails on the code. The base \<open>Statistics::setupPresenters\<close> raises the
  invalid-argument error on a null manager; the overrides of both casino statistics do not
  test the handle and call a member function through it.
\<close>

theorem C10_overrides_on_null_manager:
  "CasinoBinStatistics_setupPresenters arma_mean pct pctf None st = Undefined
   \<and> CasinoStatistics_setupPresenters arma_mean pct pctf None cst = Undefined
   \<and> Statistics_setupPresenters None =
       Raises (InvalidArgument ''PresenterManager cannot be nullptr'')"
  by (simp add: CasinoBinStatistics_setupPresenters_def CasinoStatistics_setupPresenters_def
      Statistics_setupPresenters_def)

end
